theory Spec2Isabelle
  imports Complex_Main
begin

unbundle bit_operations_syntax

section \<open>Fuel route planner: geometry codec, route projection and refuelling plan\<close>

text \<open>
  The development embeds \<^verbatim>\<open>core/services/fuel_plan.py\<close>. A finite Python float is
  the real number it stands for (\<^typ>\<open>real\<close>); comparisons of floats are exact. The
  arithmetic of the planner is rounded: each \<^verbatim>\<open>+\<close>, \<^verbatim>\<open>-\<close>, \<^verbatim>\<open>*\<close> and \<^verbatim>\<open>/\<close> of two
  floats, each float literal and each \<^verbatim>\<open>round(x, n)\<close> yields the float nearest to the
  exact result. The rounding function, called \<open>fl\<close>, is a parameter of every definition
  of the planner: a property proved for all \<open>fl\<close> holds for the rounding of binary64
  floats (\<open>binary64\<close> below) and for exact arithmetic (the identity) alike, and a property
  that needs more of \<open>fl\<close> says so in its hypotheses. Overflow to infinity and underflow
  are not modelled. In the same way the route projection takes the distance function as
  a parameter. The distance and cumulative-distance functions themselves are given over
  the reals.

  The one place where the program itself creates a non-finite float is the price of the
  terminal node (\<^verbatim>\<open>float("inf")\<close>); prices and the money amounts computed from them
  therefore live in the type \<open>pyfloat\<close> below. Python integers are \<^typ>\<open>int\<close>.
  Exceptions are values of the type \<open>py_error\<close>.
\<close>

subsection \<open>Errors and floats\<close>

datatype py_error = IndexError | ZeroDivisionError

datatype pyfloat = Fin real | PInf | MInf | NaN

text \<open>\<^verbatim>\<open>a < b\<close> on floats: every comparison with NaN is false.\<close>

fun fless :: "pyfloat \<Rightarrow> pyfloat \<Rightarrow> bool" where
  "fless NaN _ = False"
| "fless _ NaN = False"
| "fless (Fin a) (Fin b) = (a < b)"
| "fless (Fin a) PInf = True"
| "fless (Fin a) MInf = False"
| "fless PInf _ = False"
| "fless MInf MInf = False"
| "fless MInf _ = True"

text \<open>\<^verbatim>\<open>g * p\<close> for a finite \<open>g\<close> and a float \<open>p\<close>, rounded by \<open>fl\<close>.\<close>

fun fmul :: "(real \<Rightarrow> real) \<Rightarrow> real \<Rightarrow> pyfloat \<Rightarrow> pyfloat" where
  "fmul fl g (Fin p) = Fin (fl (g * p))"
| "fmul fl g PInf = (if 0 < g then PInf else if g < 0 then MInf else NaN)"
| "fmul fl g MInf = (if 0 < g then MInf else if g < 0 then PInf else NaN)"
| "fmul fl g NaN = NaN"

text \<open>\<^verbatim>\<open>a + b\<close> on floats, rounded by \<open>fl\<close>.\<close>

fun fadd :: "(real \<Rightarrow> real) \<Rightarrow> pyfloat \<Rightarrow> pyfloat \<Rightarrow> pyfloat" where
  "fadd fl NaN _ = NaN"
| "fadd fl _ NaN = NaN"
| "fadd fl (Fin a) (Fin b) = Fin (fl (a + b))"
| "fadd fl (Fin a) PInf = PInf"
| "fadd fl (Fin a) MInf = MInf"
| "fadd fl PInf MInf = NaN"
| "fadd fl PInf _ = PInf"
| "fadd fl MInf PInf = NaN"
| "fadd fl MInf _ = MInf"

text \<open>
  The exact value that \<^verbatim>\<open>round(x, nd)\<close> aims at: the multiple of \<open>10^-nd\<close> nearest to
  \<open>x\<close>, a tie going to the even multiple. \<^verbatim>\<open>round\<close> returns the float nearest to it,
  \<open>fl (py_round x nd)\<close>.
\<close>

definition py_round :: "real \<Rightarrow> nat \<Rightarrow> real" where
  "py_round x nd =
     (let y = x * 10 ^ nd; f = \<lfloor>y\<rfloor>; d = y - of_int f
      in of_int (if d < 1 / 2 then f
                 else if 1 / 2 < d then f + 1
                 else if even f then f else f + 1) / 10 ^ nd)"

fun fround :: "(real \<Rightarrow> real) \<Rightarrow> pyfloat \<Rightarrow> nat \<Rightarrow> pyfloat" where
  "fround fl (Fin x) nd = Fin (fl (py_round x nd))"
| "fround fl PInf nd = PInf"
| "fround fl MInf nd = MInf"
| "fround fl NaN nd = NaN"

text \<open>
  The rounding of binary64 floats: to the nearest number with 53 significant bits, a tie
  going to the even significand. The exponent range is unbounded (no overflow to
  infinity, no subnormal numbers). \<open>round_even\<close> is the nearest integer with ties to
  even, and \<open>binade x\<close> the exponent \<open>e\<close> with \<open>2^e \<le> |x| < 2^(e+1)\<close>.
\<close>

definition round_even :: "real \<Rightarrow> int" where
  "round_even y =
     (let f = \<lfloor>y\<rfloor>; d = y - of_int f
      in if d < 1 / 2 then f
         else if 1 / 2 < d then f + 1
         else if even f then f else f + 1)"

definition binade :: "real \<Rightarrow> int" where
  "binade x = \<lfloor>log 2 \<bar>x\<bar>\<rfloor>"

definition binary64 :: "real \<Rightarrow> real" where
  "binary64 x =
     (if x = 0 then 0
      else of_int (round_even (x / 2 powi (binade x - 52))) * 2 powi (binade x - 52))"

subsection \<open>Great-circle distance\<close>

definition radians :: "real \<Rightarrow> real" where
  "radians x = x * pi / 180"

text \<open>
  \<^verbatim>\<open>haversine_miles\<close>. Python's \<^verbatim>\<open>math.sqrt\<close> and \<^verbatim>\<open>math.asin\<close> raise outside
  their domains; lemma \<open>haversine_arg_range\<close> below shows that over the reals the
  argument always lies in \<open>[0, 1]\<close>, so the function is modelled without an error case.
\<close>

definition haversine_arg :: "real \<Rightarrow> real \<Rightarrow> real \<Rightarrow> real \<Rightarrow> real" where
  "haversine_arg lat1 lon1 lat2 lon2 =
     (let phi1 = radians lat1; phi2 = radians lat2;
          dphi = radians (lat2 - lat1);
          dl = radians (lon2 - lon1)
      in (sin (dphi / 2))\<^sup>2 + cos phi1 * cos phi2 * (sin (dl / 2))\<^sup>2)"

definition haversine_miles :: "real \<Rightarrow> real \<Rightarrow> real \<Rightarrow> real \<Rightarrow> real" where
  "haversine_miles lat1 lon1 lat2 lon2 =
     (let R = 39587613 / 10000; a = haversine_arg lat1 lon1 lat2 lon2
      in 2 * R * arcsin (sqrt a))"

subsection \<open>Cumulative route distance\<close>

type_synonym point = "real \<times> real"

text \<open>
  \<^verbatim>\<open>cumulative_miles\<close>: the list starts as \<^verbatim>\<open>[0.0]\<close> and the loop over
  \<^verbatim>\<open>range(1, len(poly))\<close> appends \<^verbatim>\<open>cum[-1] + haversine_miles(poly[i-1], poly[i])\<close>.
\<close>

function cumulative_loop :: "point list \<Rightarrow> nat \<Rightarrow> real list \<Rightarrow> real list" where
  "cumulative_loop poly i cum =
     (if i < length poly
      then cumulative_loop poly (i + 1)
             (cum @ [last cum + haversine_miles (fst (poly ! (i - 1))) (snd (poly ! (i - 1)))
                                                (fst (poly ! i)) (snd (poly ! i))])
      else cum)"
  by pat_completeness auto
termination
  by (relation "measure (\<lambda>(poly, i, cum). length poly - i)") auto

declare cumulative_loop.simps [simp del]

definition cumulative_miles :: "point list \<Rightarrow> real list" where
  "cumulative_miles poly = cumulative_loop poly 1 [0]"

text \<open>The distance the loop adds at index \<open>i\<close>: from \<^verbatim>\<open>poly[i-1]\<close> to \<^verbatim>\<open>poly[i]\<close>.\<close>

definition leg :: "point list \<Rightarrow> nat \<Rightarrow> real" where
  "leg poly i = haversine_miles (fst (poly ! (i - 1))) (snd (poly ! (i - 1)))
                                (fst (poly ! i)) (snd (poly ! i))"

subsection \<open>Polyline decoding\<close>

text \<open>
  The inner \<^verbatim>\<open>while True\<close> loop of \<^verbatim>\<open>decode_polyline\<close>, which occurs twice in the
  source with the same body. It reads \<^verbatim>\<open>polyline_str[index]\<close> (an \<^verbatim>\<open>IndexError\<close> when
  \<open>index\<close> is not below the length), accumulates five bits per character and stops
  after a character with \<^verbatim>\<open>b < 0x20\<close>. It returns \<open>result\<close> and the new \<open>index\<close>.
\<close>

function read_chunks :: "string \<Rightarrow> nat \<Rightarrow> nat \<Rightarrow> int \<Rightarrow> py_error + (int \<times> nat)" where
  "read_chunks s index shift result =
     (if length s \<le> index then Inl IndexError
      else let b = of_char (s ! index) - 63;
               index' = index + 1;
               result' = result OR push_bit shift (b AND 0x1f);
               shift' = shift + 5
           in if b < 0x20 then Inr (result', index')
              else read_chunks s index' shift' result')"
  by pat_completeness auto
termination
  by (relation "measure (\<lambda>(s, index, shift, result). length s - index)") auto

declare read_chunks.simps [simp del]

text \<open>\<^verbatim>\<open>~(result >> 1) if (result & 1) else (result >> 1)\<close>\<close>

definition unzigzag :: "int \<Rightarrow> int" where
  "unzigzag result =
     (if result AND 1 \<noteq> 0 then NOT (drop_bit 1 result) else drop_bit 1 result)"

lemma read_chunks_index:
  "read_chunks s i sh r = Inr (v, j) \<Longrightarrow> i < j \<and> j \<le> length s"
proof (induction s i sh r rule: read_chunks.induct)
  case (1 s index shift result)
  show ?case
  proof (cases "length s \<le> index")
    case True
    with "1.prems" show ?thesis by (simp add: read_chunks.simps [of s index])
  next
    case False
    show ?thesis
    proof (cases "of_char (s ! index) - 63 < (0x20 :: int)")
      case True
      with False "1.prems" show ?thesis
        by (auto simp: read_chunks.simps [of s index] Let_def)
    next
      case stop: False
      with False "1.prems"
      have "read_chunks s (index + 1) (shift + 5)
              (result OR push_bit shift ((of_char (s ! index) - 63) AND 0x1f)) = Inr (v, j)"
        by (simp add: read_chunks.simps [of s index] Let_def)
      from "1.IH" [OF False refl refl refl refl stop this] show ?thesis by simp
    qed
  qed
qed

text \<open>The outer \<^verbatim>\<open>while index < length\<close> loop.\<close>

function decode_loop ::
  "string \<Rightarrow> nat \<Rightarrow> int \<Rightarrow> int \<Rightarrow> point list \<Rightarrow> py_error + point list" where
  "decode_loop s index lat lng coords =
     (if index < length s
      then (case read_chunks s index 0 0 of
              Inl e \<Rightarrow> Inl e
            | Inr (result, index1) \<Rightarrow>
                let lat' = lat + unzigzag result
                in (case read_chunks s index1 0 0 of
                      Inl e \<Rightarrow> Inl e
                    | Inr (result2, index2) \<Rightarrow>
                        let lng' = lng + unzigzag result2
                        in decode_loop s index2 lat' lng'
                             (coords @ [(of_int lat' / 100000, of_int lng' / 100000)])))
      else Inr coords)"
  by pat_completeness auto
termination decode_loop
proof (relation "measure (\<lambda>(s, index, lat, lng, coords). length s - index)", goal_cases)
  case 1
  show ?case by simp
next
  case (2 s index lat lng coords x2 result index1 lat' x2a result2 index2 lng')
  from 2 have "index < index1 \<and> index1 \<le> length s" "index1 < index2 \<and> index2 \<le> length s"
    by (auto dest: read_chunks_index)
  then show ?case by auto
qed

declare decode_loop.simps [simp del]

definition decode_polyline :: "string \<Rightarrow> py_error + point list" where
  "decode_polyline polyline_str = decode_loop polyline_str 0 0 0 []"

subsection \<open>Stations and route projection\<close>

text \<open>
  The fields of the \<^verbatim>\<open>FuelStop\<close> model that the planner reads. Stations reach the
  planner only through catalogue queries that filter on latitude and longitude bounds and
  exclude a null price, so the three are plain numbers here; \<open>fs_price\<close> is a
  \<^verbatim>\<open>DecimalField\<close>, a finite decimal.
\<close>

record fuelstop =
  fs_id :: int
  name :: string
  city :: string
  state :: string
  lat :: real
  lon :: real
  fs_price :: real

text \<open>The dictionaries \<^verbatim>\<open>attach_route_miles\<close> builds.\<close>

record enriched =
  e_fs :: fuelstop
  e_route_miles :: real
  offroute_miles :: real

text \<open>
  The inner loop of \<^verbatim>\<open>attach_route_miles\<close> over \<^verbatim>\<open>enumerate(poly)\<close>; the state is
  \<open>(best_i, best_d)\<close>, and \<open>i\<close> is the index of the head of the remaining vertices.
  The loop compares the distances that \<^verbatim>\<open>haversine_miles\<close> returns; that function is
  the parameter \<open>hav\<close>, which stands for \<^verbatim>\<open>haversine_miles\<close> as it is computed
  (\<open>haversine_miles\<close> above is the instance over the reals).
\<close>

type_synonym distance = "real \<Rightarrow> real \<Rightarrow> real \<Rightarrow> real \<Rightarrow> real"

fun nearest_vertex ::
  "distance \<Rightarrow> fuelstop \<Rightarrow> point list \<Rightarrow> nat \<Rightarrow> nat \<times> real \<Rightarrow> nat \<times> real" where
  "nearest_vertex hav f [] i (best_i, best_d) = (best_i, best_d)"
| "nearest_vertex hav f ((la, lo) # poly) i (best_i, best_d) =
     (let d = hav (lat f) (lon f) la lo
      in if d < best_d then nearest_vertex hav f poly (i + 1) (i, d)
         else nearest_vertex hav f poly (i + 1) (best_i, best_d))"

text \<open>
  The outer loop over \<^verbatim>\<open>stops\<close>. \<^verbatim>\<open>cum[best_i]\<close> raises \<^verbatim>\<open>IndexError\<close> when
  \<open>best_i\<close> is not an index of \<open>cum\<close>.
\<close>

fun attach_loop ::
  "distance \<Rightarrow> fuelstop list \<Rightarrow> point list \<Rightarrow> real list \<Rightarrow> enriched list
   \<Rightarrow> py_error + enriched list" where
  "attach_loop hav [] poly cum acc = Inr acc"
| "attach_loop hav (f # stops) poly cum acc =
     (case nearest_vertex hav f poly 0 (0, 10 ^ 18) of
        (best_i, best_d) \<Rightarrow>
          if best_i < length cum
          then attach_loop hav stops poly cum
                 (acc @ [\<lparr>e_fs = f, e_route_miles = cum ! best_i, offroute_miles = best_d\<rparr>])
          else Inl IndexError)"

text \<open>\<^verbatim>\<open>list.sort(key=...)\<close> is a stable sort, as \<^const>\<open>sort_key\<close> is.\<close>

definition attach_route_miles ::
  "distance \<Rightarrow> fuelstop list \<Rightarrow> point list \<Rightarrow> real list \<Rightarrow> py_error + enriched list" where
  "attach_route_miles hav stops poly cum =
     (case attach_loop hav stops poly cum [] of
        Inl e \<Rightarrow> Inl e
      | Inr acc \<Rightarrow> Inr (sort_key e_route_miles acc))"

subsection \<open>The refuelling planner\<close>

text \<open>
  A node dictionary: \<^verbatim>\<open>{"fs": ..., "route_miles": ..., "price": ...}\<close>. The terminal
  node has \<^verbatim>\<open>"fs": None\<close> and the price \<^verbatim>\<open>float("inf")\<close>.
\<close>

record node =
  fs :: "fuelstop option"
  route_miles :: real
  price :: pyfloat

record stop =
  s_id :: int
  s_name :: string
  s_city :: string
  s_state :: string
  s_lat :: real
  s_lon :: real
  s_price :: real
  s_route_miles :: real
  gallons_bought :: real
  cost :: pyfloat

record plan =
  stops :: "stop list"
  total_cost :: pyfloat
  tank_gallons_capacity :: real

datatype failure = NO_FEASIBLE_PLAN (gap_miles: real)

text \<open>
  Lines 108 to 110: filter, append the terminal node, sort by \<^verbatim>\<open>route_miles\<close>. No
  arithmetic is involved, only comparisons.
\<close>

definition build_nodes :: "node list \<Rightarrow> real \<Rightarrow> node list" where
  "build_nodes stations total_miles =
     sort_key route_miles
       (filter (\<lambda>n. route_miles n \<le> total_miles) stations
        @ [\<lparr>fs = None, route_miles = total_miles, price = PInf\<rparr>])"

text \<open>
  The feasibility loop (lines 112 to 114): the first computed gap above the computed
  threshold \<^verbatim>\<open>max_range_miles + 1e-6\<close>, if there is one. The subtraction, the literal
  and the addition are rounded.
\<close>

function first_gap :: "(real \<Rightarrow> real) \<Rightarrow> node list \<Rightarrow> real \<Rightarrow> nat \<Rightarrow> real option" where
  "first_gap fl nodes max_range_miles i =
     (if i < length nodes - 1
      then if fl (route_miles (nodes ! (i + 1)) - route_miles (nodes ! i))
                > fl (max_range_miles + fl (1 / 1000000))
           then Some (fl (route_miles (nodes ! (i + 1)) - route_miles (nodes ! i)))
           else first_gap fl nodes max_range_miles (i + 1)
      else None)"
  by pat_completeness auto
termination
  by (relation "measure (\<lambda>(fl, nodes, max_range_miles, i). length nodes - i)") auto

declare first_gap.simps [simp del]

text \<open>
  The look-ahead loop over \<^verbatim>\<open>k in range(i + 1, len(nodes))\<close> (lines 125 to 131): it
  stops without a result at the first node out of range and with \<open>k\<close> at the first
  node in range that is strictly cheaper.
\<close>

function find_cheaper ::
  "(real \<Rightarrow> real) \<Rightarrow> node list \<Rightarrow> real \<Rightarrow> pyfloat \<Rightarrow> real \<Rightarrow> nat \<Rightarrow> nat option" where
  "find_cheaper fl nodes here_mile here_price max_range_miles k =
     (if k < length nodes
      then if fl (route_miles (nodes ! k) - here_mile) > max_range_miles then None
           else if fless (price (nodes ! k)) here_price then Some k
           else find_cheaper fl nodes here_mile here_price max_range_miles (k + 1)
      else None)"
  by pat_completeness auto
termination
  by (relation
       "measure (\<lambda>(fl, nodes, here_mile, here_price, max_range_miles, k). length nodes - k)")
    auto

declare find_cheaper.simps [simp del]

text \<open>Line 133.\<close>

definition target_miles :: "(real \<Rightarrow> real) \<Rightarrow> node list \<Rightarrow> real \<Rightarrow> real \<Rightarrow> nat \<Rightarrow> real" where
  "target_miles fl nodes total_miles max_range_miles i =
     (let here_mile = route_miles (nodes ! i)
      in case find_cheaper fl nodes here_mile (price (nodes ! i)) max_range_miles (i + 1) of
           Some j \<Rightarrow> route_miles (nodes ! j)
         | None \<Rightarrow> min total_miles (fl (here_mile + max_range_miles)))"

text \<open>Lines 134 and 135, for the fuel level \<open>fuel\<close> on arrival at node \<open>i\<close>.\<close>

definition buy_gal ::
  "(real \<Rightarrow> real) \<Rightarrow> node list \<Rightarrow> real \<Rightarrow> real \<Rightarrow> real \<Rightarrow> nat \<Rightarrow> real \<Rightarrow> real" where
  "buy_gal fl nodes total_miles mpg max_range_miles i fuel =
     (let tank_gal = fl (max_range_miles / mpg);
          need_gal = fl (fl (target_miles fl nodes total_miles max_range_miles i
                             - route_miles (nodes ! i)) / mpg)
      in max 0 (fl (min tank_gal need_gal - fuel)))"

record scan_state =
  fuel :: real
  acc_cost :: pyfloat
  acc_plan :: "stop list"

text \<open>The dictionary appended to \<^verbatim>\<open>plan\<close> (lines 146 to 157).\<close>

definition stop_entry :: "(real \<Rightarrow> real) \<Rightarrow> fuelstop \<Rightarrow> real \<Rightarrow> real \<Rightarrow> pyfloat \<Rightarrow> stop" where
  "stop_entry fl f here_mile bought c =
     \<lparr>s_id = fs_id f, s_name = name f, s_city = city f, s_state = state f,
      s_lat = lat f, s_lon = lon f, s_price = fs_price f,
      s_route_miles = fl (py_round here_mile 3),
      gallons_bought = fl (py_round bought 4),
      cost = fround fl c 4\<rparr>"

text \<open>
  One iteration of the main loop (lines 121 to 157). The fuel level is updated twice,
  \<^verbatim>\<open>fuel += buy_gal\<close> and \<^verbatim>\<open>fuel -= burn\<close>, each with its own rounding.
\<close>

definition scan_step ::
  "(real \<Rightarrow> real) \<Rightarrow> node list \<Rightarrow> real \<Rightarrow> real \<Rightarrow> real \<Rightarrow> nat \<Rightarrow> scan_state \<Rightarrow> scan_state" where
  "scan_step fl nodes total_miles mpg max_range_miles i st =
     (let here = nodes ! i;
          here_price = price here;
          here_mile = route_miles here;
          bought = buy_gal fl nodes total_miles mpg max_range_miles i (fuel st);
          c = fmul fl bought here_price;
          burn = fl (fl (route_miles (nodes ! (i + 1)) - here_mile) / mpg)
      in \<lparr>fuel = fl (fl (fuel st + bought) - burn),
          acc_cost = fadd fl (acc_cost st) c,
          acc_plan =
            (case fs here of
               Some f \<Rightarrow>
                 if bought > fl (1 / 1000000)
                 then acc_plan st @ [stop_entry fl f here_mile bought c]
                 else acc_plan st
             | None \<Rightarrow> acc_plan st)\<rparr>)"

text \<open>The main loop over \<^verbatim>\<open>i in range(len(nodes) - 1)\<close>.\<close>

function scan ::
  "(real \<Rightarrow> real) \<Rightarrow> node list \<Rightarrow> real \<Rightarrow> real \<Rightarrow> real \<Rightarrow> nat \<Rightarrow> scan_state \<Rightarrow> scan_state" where
  "scan fl nodes total_miles mpg max_range_miles i st =
     (if i < length nodes - 1
      then scan fl nodes total_miles mpg max_range_miles (i + 1)
             (scan_step fl nodes total_miles mpg max_range_miles i st)
      else st)"
  by pat_completeness auto
termination
  by (relation
       "measure (\<lambda>(fl, nodes, total_miles, mpg, max_range_miles, i, st). length nodes - i)")
    auto

declare scan.simps [simp del]

text \<open>
  \<^verbatim>\<open>min_cost_plan\<close> returns a pair \<open>(plan, error)\<close> of which one is \<^verbatim>\<open>None\<close>. The
  float division \<^verbatim>\<open>max_range_miles / mpg\<close> of line 107 raises
  \<^verbatim>\<open>ZeroDivisionError\<close> when \<open>mpg\<close> is zero; every later division by \<open>mpg\<close> is
  behind it.
\<close>

definition min_cost_plan ::
  "(real \<Rightarrow> real) \<Rightarrow> node list \<Rightarrow> real \<Rightarrow> real \<Rightarrow> real
   \<Rightarrow> py_error + (plan option \<times> failure option)" where
  "min_cost_plan fl stations total_miles mpg max_range_miles =
     (if mpg = 0 then Inl ZeroDivisionError
      else let tank_gal = fl (max_range_miles / mpg);
               nodes = build_nodes stations total_miles
           in case first_gap fl nodes max_range_miles 0 of
                Some g \<Rightarrow> Inr (None, Some (NO_FEASIBLE_PLAN g))
              | None \<Rightarrow>
                  let st = scan fl nodes total_miles mpg max_range_miles 0
                             \<lparr>fuel = 0, acc_cost = Fin 0, acc_plan = []\<rparr>
                  in Inr (Some \<lparr>stops = acc_plan st,
                                total_cost = fround fl (acc_cost st) 4,
                                tank_gallons_capacity = fl (py_round tank_gal 4)\<rparr>, None))"

subsection \<open>Notions used to state the properties\<close>

text \<open>
  What is assumed of the rounding function where a property needs it. Rounding to the
  nearest float is monotone; with unit roundoff \<open>u\<close> the rounded value is within the
  relative error \<open>u\<close> of the exact one (the standard model of floating-point
  arithmetic); and rounding a float again does not change it. Exact arithmetic,
  \<open>fl = id\<close>, satisfies all three with \<open>u = 0\<close>, and \<open>binary64\<close> satisfies them with
  \<open>u = 2^-53\<close> (lemma \<open>binary64_rounding\<close>). A number \<open>x\<close> is a float when
  \<open>fl x = x\<close>.
\<close>

definition monotone_rounding :: "(real \<Rightarrow> real) \<Rightarrow> bool" where
  "monotone_rounding fl \<longleftrightarrow> (\<forall>x y. x \<le> y \<longrightarrow> fl x \<le> fl y)"

definition unit_roundoff :: "(real \<Rightarrow> real) \<Rightarrow> real \<Rightarrow> bool" where
  "unit_roundoff fl u \<longleftrightarrow> (\<forall>x. \<bar>fl x - x\<bar> \<le> u * \<bar>x\<bar>)"

definition idempotent_rounding :: "(real \<Rightarrow> real) \<Rightarrow> bool" where
  "idempotent_rounding fl \<longleftrightarrow> (\<forall>x. fl (fl x) = fl x)"

text \<open>The synthetic terminal node that line 109 appends.\<close>

definition terminal :: "real \<Rightarrow> node" where
  "terminal total_miles = \<lparr>fs = None, route_miles = total_miles, price = PInf\<rparr>"

text \<open>
  The distance from node \<open>i\<close> to node \<open>i + 1\<close>: the exact one, and the one that lines
  113, 114 and 141 compute.
\<close>

definition gap :: "node list \<Rightarrow> nat \<Rightarrow> real" where
  "gap nodes i = route_miles (nodes ! (i + 1)) - route_miles (nodes ! i)"

definition computed_gap :: "(real \<Rightarrow> real) \<Rightarrow> node list \<Rightarrow> nat \<Rightarrow> real" where
  "computed_gap fl nodes i = fl (route_miles (nodes ! (i + 1)) - route_miles (nodes ! i))"

text \<open>The threshold of line 113, \<^verbatim>\<open>max_range_miles + 1e-6\<close>, as computed.\<close>

definition threshold :: "(real \<Rightarrow> real) \<Rightarrow> real \<Rightarrow> real" where
  "threshold fl max_range_miles = fl (max_range_miles + fl (1 / 1000000))"

text \<open>
  The station dictionary that the view builds from a catalogue entry and its route mile
  (\<^verbatim>\<open>views.py\<close>, lines 74 to 86): the price is \<^verbatim>\<open>float(fs.price)\<close>.
\<close>

definition station :: "fuelstop \<Rightarrow> real \<Rightarrow> node" where
  "station f m = \<lparr>fs = Some f, route_miles = m, price = Fin (fs_price f)\<rparr>"

text \<open>A catalogue entry with a given id and price, for the worked examples.\<close>

definition stop_at :: "int \<Rightarrow> real \<Rightarrow> fuelstop" where
  "stop_at i p =
     \<lparr>fs_id = i, name = ''S'', city = ''C'', state = ''TX'', lat = 0, lon = 0, fs_price = p\<rparr>"

text \<open>
  The state of the main loop after its first \<open>n\<close> iterations, from the start state of
  lines 116 to 118; lemma \<open>scan_is_prefix\<close> shows that \<open>scan\<close> returns the state after
  \<open>length nodes - 1\<close> iterations.
\<close>

fun scan_prefix ::
  "(real \<Rightarrow> real) \<Rightarrow> node list \<Rightarrow> real \<Rightarrow> real \<Rightarrow> real \<Rightarrow> nat \<Rightarrow> scan_state" where
  "scan_prefix fl nodes total_miles mpg max_range_miles 0 =
     \<lparr>fuel = 0, acc_cost = Fin 0, acc_plan = []\<rparr>"
| "scan_prefix fl nodes total_miles mpg max_range_miles (Suc n) =
     scan_step fl nodes total_miles mpg max_range_miles n
       (scan_prefix fl nodes total_miles mpg max_range_miles n)"

text \<open>
  The gallons bought in iteration \<open>n\<close>, the fuel level right after that purchase, and
  the money paid.
\<close>

definition bought_at ::
  "(real \<Rightarrow> real) \<Rightarrow> node list \<Rightarrow> real \<Rightarrow> real \<Rightarrow> real \<Rightarrow> nat \<Rightarrow> real" where
  "bought_at fl nodes total_miles mpg max_range_miles n =
     buy_gal fl nodes total_miles mpg max_range_miles n
       (fuel (scan_prefix fl nodes total_miles mpg max_range_miles n))"

definition fuel_after_purchase ::
  "(real \<Rightarrow> real) \<Rightarrow> node list \<Rightarrow> real \<Rightarrow> real \<Rightarrow> real \<Rightarrow> nat \<Rightarrow> real" where
  "fuel_after_purchase fl nodes total_miles mpg max_range_miles n =
     fl (fuel (scan_prefix fl nodes total_miles mpg max_range_miles n)
         + bought_at fl nodes total_miles mpg max_range_miles n)"

definition cost_at ::
  "(real \<Rightarrow> real) \<Rightarrow> node list \<Rightarrow> real \<Rightarrow> real \<Rightarrow> real \<Rightarrow> nat \<Rightarrow> pyfloat" where
  "cost_at fl nodes total_miles mpg max_range_miles n =
     fmul fl (bought_at fl nodes total_miles mpg max_range_miles n) (price (nodes ! n))"

text \<open>
  The specification's wording of the look-ahead, for comparison with \<open>find_cheaper\<close>:
  the first node after \<open>i\<close> that is within \<open>max_range_miles\<close> of node \<open>i\<close> and strictly
  cheaper; and the gallons required to reach it or, if there is none, to reach
  \<open>min(total_miles, here + max_range_miles)\<close>.
\<close>

definition first_cheaper_in_range ::
  "(real \<Rightarrow> real) \<Rightarrow> node list \<Rightarrow> real \<Rightarrow> nat \<Rightarrow> nat option" where
  "first_cheaper_in_range fl nodes max_range_miles i =
     find (\<lambda>j. fl (route_miles (nodes ! j) - route_miles (nodes ! i)) \<le> max_range_miles
               \<and> fless (price (nodes ! j)) (price (nodes ! i)))
          [i + 1 ..< length nodes]"

definition required_gallons ::
  "(real \<Rightarrow> real) \<Rightarrow> node list \<Rightarrow> real \<Rightarrow> real \<Rightarrow> real \<Rightarrow> nat \<Rightarrow> real" where
  "required_gallons fl nodes total_miles mpg max_range_miles i =
     fl (fl ((case first_cheaper_in_range fl nodes max_range_miles i of
                Some j \<Rightarrow> route_miles (nodes ! j)
              | None \<Rightarrow> min total_miles (fl (route_miles (nodes ! i) + max_range_miles)))
             - route_miles (nodes ! i)) / mpg)"

text \<open>The running sum of a list of floats, from \<open>0.0\<close>, as line 138 accumulates it.\<close>

definition fsum :: "(real \<Rightarrow> real) \<Rightarrow> pyfloat list \<Rightarrow> pyfloat" where
  "fsum fl xs = foldl (fadd fl) (Fin 0) xs"

text \<open>
  The tolerance within which the gallons bought in aggregate meet \<open>total_miles / mpg\<close>:
  for unit roundoff \<open>u\<close>, \<open>n\<close> scanned nodes, the exact \<open>gallons = total_miles / mpg\<close>
  and the computed tank capacity \<open>tank\<close>. It is zero in exact arithmetic.
\<close>

definition gallons_tolerance :: "real \<Rightarrow> nat \<Rightarrow> real \<Rightarrow> real \<Rightarrow> real" where
  "gallons_tolerance u n gallons tank = 9 * u * gallons + (6 * real n + 3) * u * tank"

text \<open>The condition of line 144 under which iteration \<open>k\<close> appends an entry to the plan.\<close>

definition recorded ::
  "(real \<Rightarrow> real) \<Rightarrow> node list \<Rightarrow> real \<Rightarrow> real \<Rightarrow> real \<Rightarrow> nat \<Rightarrow> bool" where
  "recorded fl nodes total_miles mpg max_range_miles k \<longleftrightarrow>
     fs (nodes ! k) \<noteq> None
     \<and> fl (1 / 1000000) < bought_at fl nodes total_miles mpg max_range_miles k"

text \<open>
  The specification's wording of the projection, for comparison with \<open>nearest_vertex\<close>:
  the distance from a station to a vertex, and the lowest vertex index that attains the
  minimum distance.
\<close>

definition dist_to :: "distance \<Rightarrow> fuelstop \<Rightarrow> point \<Rightarrow> real" where
  "dist_to hav f p = hav (lat f) (lon f) (fst p) (snd p)"

definition is_best_index :: "distance \<Rightarrow> fuelstop \<Rightarrow> point list \<Rightarrow> nat \<Rightarrow> bool" where
  "is_best_index hav f poly i \<longleftrightarrow>
     i < length poly
     \<and> (\<forall>j<length poly. dist_to hav f (poly ! i) \<le> dist_to hav f (poly ! j))
     \<and> (\<forall>j<i. dist_to hav f (poly ! i) < dist_to hav f (poly ! j))"

text \<open>The index that the inner loop of \<^verbatim>\<open>attach_route_miles\<close> ends with.\<close>

definition best_index :: "distance \<Rightarrow> fuelstop \<Rightarrow> point list \<Rightarrow> nat" where
  "best_index hav f poly = fst (nearest_vertex hav f poly 0 (0, 10 ^ 18))"

text \<open>
  The invariant of the inner loop of \<^verbatim>\<open>attach_route_miles\<close> once the first vertex has
  been seen: \<open>(best_i, best_d)\<close> is the first minimum among the vertices before \<open>i\<close>.
\<close>

definition vertex_inv ::
  "distance \<Rightarrow> fuelstop \<Rightarrow> point list \<Rightarrow> nat \<Rightarrow> nat \<times> real \<Rightarrow> bool" where
  "vertex_inv hav f poly i st \<longleftrightarrow>
     fst st < i \<and> snd st = dist_to hav f (poly ! fst st)
     \<and> (\<forall>j<i. snd st \<le> dist_to hav f (poly ! j))
     \<and> (\<forall>j<fst st. snd st < dist_to hav f (poly ! j))"

text \<open>
  The test of lines 25 and 36 of \<^verbatim>\<open>decode_polyline\<close>, negated: after this character
  the group goes on. For the characters of the polyline alphabet, \<^verbatim>\<open>?\<close> to \<^verbatim>\<open>~\<close>, it
  says that bit \<open>0x20\<close> of the chunk value is set, the specification's wording
  (\<open>continuation_bit\<close>; lemma \<open>continues_iff_bit\<close>).
\<close>

definition continues :: "char \<Rightarrow> bool" where
  "continues c \<longleftrightarrow> \<not> (of_char c - 63 < (0x20 :: int))"

definition continuation_bit :: "char \<Rightarrow> bool" where
  "continuation_bit c \<longleftrightarrow> (of_char c - 63 :: int) AND 0x20 \<noteq> 0"

section \<open>Properties\<close>

subsection \<open>Great-circle distance\<close>

text \<open>
  Over the reals the argument of the square root and of the arc sine is in \<open>[0, 1]\<close>
  for all coordinates, so neither \<^verbatim>\<open>math.sqrt\<close> nor \<^verbatim>\<open>math.asin\<close> can raise.
\<close>

lemma haversine_arg_range:
  "0 \<le> haversine_arg lat1 lon1 lat2 lon2 \<and> haversine_arg lat1 lon1 lat2 lon2 \<le> 1"
proof -
  define x where "x = radians lat1"
  define y where "y = radians lat2"
  define u where "u = (sin (radians (lon2 - lon1) / 2))\<^sup>2"
  define c where "c = cos (y - x)"
  define e where "e = cos (y + x)"
  have dphi: "radians (lat2 - lat1) = y - x"
    by (simp add: radians_def x_def y_def algebra_simps diff_divide_distrib)
  have "2 * ((y - x) / 2) = y - x" by simp
  then have "cos (y - x) = 1 - 2 * (sin ((y - x) / 2))\<^sup>2"
    using cos_double_sin [of "(y - x) / 2"] by (simp only:)
  then have half: "(sin ((y - x) / 2))\<^sup>2 = (1 - c) / 2"
    by (simp add: c_def)
  have prod: "cos x * cos y = (c + e) / 2"
    by (simp add: c_def e_def cos_diff cos_add)
  have a: "haversine_arg lat1 lon1 lat2 lon2 = (1 - c) / 2 + (c + e) / 2 * u"
    unfolding haversine_arg_def Let_def dphi half
    using prod by (simp add: x_def y_def u_def)
  have u: "0 \<le> u" "u \<le> 1"
    by (simp_all add: u_def abs_square_le_1)
  have c: "- 1 \<le> c" "c \<le> 1" and e: "- 1 \<le> e" "e \<le> 1"
    by (simp_all add: c_def e_def)
  define t where "t = c * (1 - u)"
  define w where "w = e * u"
  have t: "t \<le> 1 - u" "u - 1 \<le> t"
    using mult_right_mono [of c 1 "1 - u"] mult_right_mono [of "- 1" c "1 - u"] u c
    by (simp_all add: t_def)
  have w: "w \<le> u" "- u \<le> w"
    using mult_right_mono [of e 1 u] mult_right_mono [of "- 1" e u] u e
    by (simp_all add: w_def)
  have "(1 - c) / 2 + (c + e) / 2 * u = (1 - t + w) / 2"
    by (simp add: t_def w_def algebra_simps add_divide_distrib diff_divide_distrib)
  with a have "haversine_arg lat1 lon1 lat2 lon2 = (1 - t + w) / 2"
    by (simp only:)
  with t w show ?thesis by auto
qed

lemma haversine_miles_nonneg: "0 \<le> haversine_miles lat1 lon1 lat2 lon2"
proof -
  have "0 \<le> sqrt (haversine_arg lat1 lon1 lat2 lon2)" "sqrt (haversine_arg lat1 lon1 lat2 lon2) \<le> 1"
    using haversine_arg_range [of lat1 lon1 lat2 lon2] by (simp_all add: real_sqrt_le_1_iff)
  then have "0 \<le> arcsin (sqrt (haversine_arg lat1 lon1 lat2 lon2))"
    by (intro arcsin_nonneg) simp
  then show ?thesis by (simp add: haversine_miles_def Let_def)
qed

lemma haversine_miles_bound: "haversine_miles lat1 lon1 lat2 lon2 < 10 ^ 18"
proof -
  have "0 \<le> sqrt (haversine_arg lat1 lon1 lat2 lon2)" "sqrt (haversine_arg lat1 lon1 lat2 lon2) \<le> 1"
    using haversine_arg_range [of lat1 lon1 lat2 lon2] by (simp_all add: real_sqrt_le_1_iff)
  then have "arcsin (sqrt (haversine_arg lat1 lon1 lat2 lon2)) \<le> pi / 2"
    by (intro arcsin_ubound) linarith+
  moreover have "pi / 2 \<le> 2" using pi_less_4 by simp
  ultimately have "arcsin (sqrt (haversine_arg lat1 lon1 lat2 lon2)) \<le> 2" by linarith
  then show ?thesis by (simp add: haversine_miles_def Let_def)
qed


subsection \<open>Cumulative route distance\<close>

lemma cumulative_loop_length:
  "length (cumulative_loop poly i cum) = length cum + (length poly - i)"
proof (induction poly i cum rule: cumulative_loop.induct)
  case (1 poly i cum)
  show ?case
  proof (cases "i < length poly")
    case True
    with "1.IH" show ?thesis by (simp add: cumulative_loop.simps [of poly i])
  next
    case False
    then show ?thesis by (simp add: cumulative_loop.simps [of poly i])
  qed
qed

lemma cumulative_loop_prefix:
  "k < length cum \<Longrightarrow> cumulative_loop poly i cum ! k = cum ! k"
proof (induction poly i cum rule: cumulative_loop.induct)
  case (1 poly i cum)
  show ?case
  proof (cases "i < length poly")
    case True
    with "1.IH" "1.prems" show ?thesis
      by (simp add: cumulative_loop.simps [of poly i] nth_append)
  next
    case False
    then show ?thesis by (simp add: cumulative_loop.simps [of poly i])
  qed
qed

lemma cumulative_loop_sorted:
  "cum \<noteq> [] \<Longrightarrow> sorted cum \<Longrightarrow> sorted (cumulative_loop poly i cum)"
proof (induction poly i cum rule: cumulative_loop.induct)
  case (1 poly i cum)
  show ?case
  proof (cases "i < length poly")
    case True
    define h where "h = leg poly i"
    have h: "0 \<le> h" by (simp add: h_def leg_def haversine_miles_nonneg)
    have "\<forall>x\<in>set cum. x \<le> last cum"
      using "1.prems" by (metis in_set_conv_nth last_conv_nth sorted_nth_mono
          Suc_pred' length_greater_0_conv less_Suc_eq_le diff_less zero_less_one)
    with h "1.prems" have "sorted (cum @ [last cum + h])"
      by (fastforce simp: sorted_append)
    with "1.IH" [OF True] True show ?thesis
      by (simp add: cumulative_loop.simps [of poly i] h_def leg_def)
  next
    case False
    with "1.prems" show ?thesis by (simp add: cumulative_loop.simps [of poly i])
  qed
qed

lemma cumulative_loop_step:
  "length cum = i \<Longrightarrow> 0 < i \<Longrightarrow> i \<le> k \<Longrightarrow> k < length poly \<Longrightarrow>
   cumulative_loop poly i cum ! k = cumulative_loop poly i cum ! (k - 1) + leg poly k"
proof (induction poly i cum rule: cumulative_loop.induct)
  case (1 poly i cum)
  from "1.prems" have lt: "i < length poly" by simp
  let ?cum' = "cum @ [last cum + leg poly i]"
  have unfold: "cumulative_loop poly i cum = cumulative_loop poly (i + 1) ?cum'"
    using lt by (simp add: cumulative_loop.simps [of poly i] leg_def)
  show ?case
  proof (cases "k = i")
    case True
    have "cumulative_loop poly (i + 1) ?cum' ! i = ?cum' ! i"
      using "1.prems" by (intro cumulative_loop_prefix) simp
    moreover have "cumulative_loop poly (i + 1) ?cum' ! (i - 1) = ?cum' ! (i - 1)"
      using "1.prems" by (intro cumulative_loop_prefix) simp
    moreover have "?cum' ! i = last cum + leg poly i"
      using "1.prems" by (simp add: nth_append)
    moreover have "?cum' ! (i - 1) = last cum"
    proof -
      from "1.prems" have "cum \<noteq> []" by auto
      then have "last cum = cum ! (length cum - 1)" by (rule last_conv_nth)
      with "1.prems" show ?thesis by (simp add: nth_append)
    qed
    ultimately show ?thesis using True unfold by simp
  next
    case False
    with "1.prems" have "i + 1 \<le> k" by simp
    with "1.IH" [OF lt] "1.prems" unfold show ?thesis by (simp add: leg_def)
  qed
qed

text \<open>
  Claim C5, as stated: the output of \<^verbatim>\<open>cumulative_miles\<close> has the length of its input,
  also for the empty sequence. It fails there: the list is initialised to \<^verbatim>\<open>[0.0]\<close>
  before the loop, so the empty route yields one entry.
\<close>

theorem cumulative_miles_empty_counterexample:
  "cumulative_miles [] = [0] \<and> length (cumulative_miles []) \<noteq> length ([] :: point list)"
  by (simp add: cumulative_miles_def cumulative_loop.simps)

text \<open>
  Claim C5, amended: for every non-empty sequence of points the output has the length of
  the input, and for the empty sequence the output is the one-element list \<^verbatim>\<open>[0.0]\<close>.
\<close>

theorem cumulative_miles_length:
  "(poly \<noteq> [] \<longrightarrow> length (cumulative_miles poly) = length poly)
   \<and> (poly = [] \<longrightarrow> cumulative_miles poly = [0])"
proof -
  have "length (cumulative_miles poly) = 1 + (length poly - 1)"
    by (simp add: cumulative_miles_def cumulative_loop_length)
  moreover have "cumulative_miles [] = [0]"
    by (simp add: cumulative_miles_def cumulative_loop.simps)
  ultimately show ?thesis by (cases poly) simp_all
qed

theorem cumulative_miles_length_witness:
  "length (cumulative_miles [(0, 0), (0, 90), (10, 90)]) = 3"
  using cumulative_miles_length [of "[(0, 0), (0, 90), (10, 90)]"] by simp

text \<open>
  Claim C8: for a non-empty sequence of points the output of \<^verbatim>\<open>cumulative_miles\<close>
  starts with 0 and is non-decreasing; each later entry is the previous entry plus the
  great-circle distance between the two points, which is not negative.
\<close>

theorem cumulative_miles_monotone:
  assumes "poly \<noteq> []"
  shows "cumulative_miles poly ! 0 = 0 \<and> sorted (cumulative_miles poly)
    \<and> (\<forall>k. 0 < k \<and> k < length poly \<longrightarrow>
          cumulative_miles poly ! k = cumulative_miles poly ! (k - 1) + leg poly k
          \<and> 0 \<le> leg poly k)"
proof -
  have "cumulative_miles poly ! 0 = 0"
    by (simp add: cumulative_miles_def cumulative_loop_prefix)
  moreover have "sorted (cumulative_miles poly)"
    by (simp add: cumulative_miles_def cumulative_loop_sorted)
  moreover have "cumulative_miles poly ! k = cumulative_miles poly ! (k - 1) + leg poly k"
    if "0 < k" "k < length poly" for k
    using that unfolding cumulative_miles_def by (intro cumulative_loop_step) simp_all
  moreover have "0 \<le> leg poly k" for k
    by (simp add: leg_def haversine_miles_nonneg)
  ultimately show ?thesis by blast
qed

theorem cumulative_miles_monotone_witness:
  "cumulative_miles [(0, 0), (0, 90)] ! 0 = 0 \<and> sorted (cumulative_miles [(0, 0), (0, 90)])
   \<and> cumulative_miles [(0, 0), (0, 90)] ! 1
       = cumulative_miles [(0, 0), (0, 90)] ! 0 + leg [(0, 0), (0, 90)] 1"
  using cumulative_miles_monotone [of "[(0, 0), (0, 90)]"] by simp

subsection \<open>Binary64 rounding\<close>

lemma round_even_error: "\<bar>of_int (round_even y) - y\<bar> \<le> 1 / 2"
proof -
  define f where "f = \<lfloor>y\<rfloor>"
  define d where "d = y - of_int f"
  have d: "0 \<le> d" "d < 1" by (simp_all add: d_def f_def) linarith+
  then show ?thesis
    unfolding round_even_def Let_def f_def [symmetric] d_def [symmetric]
    by (auto simp: d_def abs_if)
qed

lemma round_even_of_int [simp]: "round_even (of_int k) = k"
  by (simp add: round_even_def)

lemma round_even_mono: "x \<le> y \<Longrightarrow> round_even x \<le> round_even y"
proof -
  assume xy: "x \<le> y"
  then have fl: "\<lfloor>x\<rfloor> \<le> \<lfloor>y\<rfloor>" by (rule floor_mono)
  have rx: "\<lfloor>x\<rfloor> \<le> round_even x" "round_even x \<le> \<lfloor>x\<rfloor> + 1"
    by (simp_all add: round_even_def Let_def)
  have ry: "\<lfloor>y\<rfloor> \<le> round_even y" "round_even y \<le> \<lfloor>y\<rfloor> + 1"
    by (simp_all add: round_even_def Let_def)
  show ?thesis
  proof (cases "\<lfloor>x\<rfloor> < \<lfloor>y\<rfloor>")
    case True
    with rx ry show ?thesis by linarith
  next
    case False
    with fl have eq: "\<lfloor>x\<rfloor> = \<lfloor>y\<rfloor>" by simp
    with xy have "x - of_int \<lfloor>x\<rfloor> \<le> y - of_int \<lfloor>y\<rfloor>" by simp
    then show ?thesis
      unfolding round_even_def Let_def eq by auto
  qed
qed

lemma round_even_minus: "round_even (- y) = - round_even y"
proof (cases "y = of_int \<lfloor>y\<rfloor>")
  case True
  then obtain k where "y = of_int k" ..
  then have "- y = of_int (- k)" by simp
  then show ?thesis unfolding \<open>y = of_int k\<close> by (simp only: round_even_of_int)
next
  case False
  define f where "f = \<lfloor>y\<rfloor>"
  define d where "d = y - of_int f"
  from False have d: "0 < d" "d < 1"
    unfolding d_def f_def by (linarith, linarith)
  have fm: "\<lfloor>- y\<rfloor> = - f - 1"
    unfolding f_def using False by (simp add: floor_minus ceiling_altdef)
  have dm: "- y - of_int (- f - 1) = 1 - d" by (simp add: d_def)
  show ?thesis
    unfolding round_even_def Let_def fm dm f_def [symmetric] d_def [symmetric]
    using d by auto
qed


lemma two_powr_int: "(2 :: real) powr of_int k = 2 powi k"
  by (simp add: powr_real_of_int')

lemma binade_bounds:
  assumes "x \<noteq> 0"
  shows "2 powi binade x \<le> \<bar>x\<bar>" and "\<bar>x\<bar> < 2 powi (binade x + 1)"
proof -
  from assms have pos: "0 < \<bar>x\<bar>" by simp
  have 1: "of_int (binade x) \<le> log 2 \<bar>x\<bar>" and 2: "log 2 \<bar>x\<bar> < of_int (binade x + 1)"
    unfolding binade_def by linarith+
  from 1 have "2 powr of_int (binade x) \<le> \<bar>x\<bar>"
    using le_log_iff [of 2 "\<bar>x\<bar>" "of_int (binade x)"] pos by simp
  then show "2 powi binade x \<le> \<bar>x\<bar>" unfolding two_powr_int .
  from 2 have "\<bar>x\<bar> < 2 powr of_int (binade x + 1)"
    using log_less_iff [of 2 "\<bar>x\<bar>" "of_int (binade x + 1)"] pos by simp
  then show "\<bar>x\<bar> < 2 powi (binade x + 1)" unfolding two_powr_int .
qed

lemma binade_eq:
  assumes "2 powi e \<le> \<bar>x\<bar>" and "\<bar>x\<bar> < 2 powi (e + 1)"
  shows "binade x = e"
proof -
  have "(0 :: real) < 2 powi e" by simp
  with assms(1) have pos: "0 < \<bar>x\<bar>" by linarith
  from assms(1) have "2 powr of_int e \<le> \<bar>x\<bar>" unfolding two_powr_int .
  moreover from assms(2) have "\<bar>x\<bar> < 2 powr of_int (e + 1)" unfolding two_powr_int .
  ultimately have "of_int e \<le> log 2 \<bar>x\<bar>" "log 2 \<bar>x\<bar> < of_int (e + 1)"
    using le_log_iff [of 2 "\<bar>x\<bar>" "of_int e"] log_less_iff [of 2 "\<bar>x\<bar>" "of_int (e + 1)"] pos
    by simp_all
  then show ?thesis unfolding binade_def by linarith
qed


lemma binade_minus [simp]: "binade (- x) = binade x"
  by (simp add: binade_def)

lemma binary64_minus: "binary64 (- x) = - binary64 x"
  by (simp add: binary64_def round_even_minus)

lemma ulp_scale: "2 ^ 52 * (2 :: real) powi (e - 52) = 2 powi e"
  "2 ^ 53 * (2 :: real) powi (e - 52) = 2 powi (e + 1)"
proof -
  have "(2 :: real) powi (e - 52) = 2 powi e / 2 powi 52"
    by (rule power_int_diff) simp
  then show "2 ^ 52 * (2 :: real) powi (e - 52) = 2 powi e" by simp
  have "(2 :: real) powi (e + 1) = 2 powi e * 2 powi 1"
    by (rule power_int_add) simp
  with \<open>(2 :: real) powi (e - 52) = 2 powi e / 2 powi 52\<close>
  show "2 ^ 53 * (2 :: real) powi (e - 52) = 2 powi (e + 1)" by simp
qed

text \<open>The significand of a positive number: an integer from \<open>2^52\<close> to \<open>2^53\<close>.\<close>

lemma binary64_pos:
  assumes "0 < x"
  shows "binary64 x = of_int (round_even (x / 2 powi (binade x - 52))) * 2 powi (binade x - 52)"
    and "2 ^ 52 \<le> round_even (x / 2 powi (binade x - 52))"
    and "round_even (x / 2 powi (binade x - 52)) \<le> 2 ^ 53"
    and "\<bar>binary64 x - x\<bar> \<le> 2 powi (binade x - 52) / 2"
    and "2 powi binade x \<le> binary64 x"
    and "binary64 x \<le> 2 powi (binade x + 1)"
proof -
  define e where "e = binade x"
  define s :: real where "s = 2 powi (e - 52)"
  define y where "y = x / s"
  define k where "k = round_even y"
  have s: "0 < s" by (simp add: s_def)
  from assms have x0: "x \<noteq> 0" by simp
  from binade_bounds [OF x0] assms have b: "2 powi e \<le> x" "x < 2 powi (e + 1)"
    by (simp_all add: e_def)
  have sc: "2 ^ 52 * s = 2 powi e" "2 ^ 53 * s = 2 powi (e + 1)"
    unfolding s_def by (rule ulp_scale)+
  from b(1) s have "2 ^ 52 \<le> y"
    unfolding y_def sc(1) [symmetric] by (simp add: pos_le_divide_eq)
  then have "round_even (of_int (2 ^ 52)) \<le> round_even y"
    by (intro round_even_mono) simp
  then show k1: "2 ^ 52 \<le> round_even (x / 2 powi (binade x - 52))"
    unfolding round_even_of_int by (simp add: y_def s_def e_def)
  from b(2) s have "y \<le> 2 ^ 53"
    unfolding y_def sc(2) [symmetric] by (simp add: pos_divide_le_eq)
  then have "round_even y \<le> round_even (of_int (2 ^ 53))"
    by (intro round_even_mono) simp
  then show k2: "round_even (x / 2 powi (binade x - 52)) \<le> 2 ^ 53"
    unfolding round_even_of_int by (simp add: y_def s_def e_def)
  from x0 show r: "binary64 x
      = of_int (round_even (x / 2 powi (binade x - 52))) * 2 powi (binade x - 52)"
    by (simp add: binary64_def)
  then have z: "binary64 x = of_int k * s" by (simp add: k_def y_def s_def e_def)
  from s have "x = y * s" by (simp add: y_def)
  with z have "binary64 x - x = (of_int k - y) * s" by (simp add: algebra_simps)
  then have "\<bar>binary64 x - x\<bar> = \<bar>of_int k - y\<bar> * s" using s by (simp add: abs_mult)
  also have "\<dots> \<le> 1 / 2 * s"
    using s round_even_error [of y] by (intro mult_right_mono) (simp_all add: k_def)
  finally show "\<bar>binary64 x - x\<bar> \<le> 2 powi (binade x - 52) / 2"
    by (simp add: s_def e_def)
  from k1 have "(2 :: real) ^ 52 \<le> of_int k"
    unfolding k_def y_def s_def e_def by (metis of_int_le_iff of_int_numeral of_int_power)
  then have "2 ^ 52 * s \<le> of_int k * s" using s by (intro mult_right_mono) simp_all
  then show "2 powi binade x \<le> binary64 x" unfolding z sc e_def .
  from k2 have "of_int k \<le> (2 :: real) ^ 53"
    unfolding k_def y_def s_def e_def by (metis of_int_le_iff of_int_numeral of_int_power)
  then have "of_int k * s \<le> 2 ^ 53 * s" using s by (intro mult_right_mono) simp_all
  then show "binary64 x \<le> 2 powi (binade x + 1)" unfolding z sc e_def .
qed


lemma binary64_zero [simp]: "binary64 0 = 0"
  by (simp add: binary64_def)

lemma binary64_error: "\<bar>binary64 x - x\<bar> \<le> \<bar>x\<bar> / 2 ^ 53"
proof -
  have pos: "\<bar>binary64 x - x\<bar> \<le> x / 2 ^ 53" if "0 < x" for x
  proof -
    from that have "x \<noteq> 0" by simp
    from binade_bounds(1) [OF this] that have "2 powi binade x \<le> x" by simp
    then have "2 ^ 52 * 2 powi (binade x - 52) \<le> x" unfolding ulp_scale .
    then have "2 powi (binade x - 52) / 2 \<le> x / 2 ^ 53" by simp
    with binary64_pos(4) [OF that] show ?thesis by linarith
  qed
  consider "0 < x" | "x = 0" | "0 < - x" by linarith
  then show ?thesis
  proof cases
    case 1
    with pos [of x] show ?thesis by simp
  next
    case 2
    then show ?thesis by simp
  next
    case 3
    from pos [OF this] have "\<bar>- binary64 x + x\<bar> \<le> - x / 2 ^ 53"
      by (simp add: binary64_minus)
    moreover have "\<bar>- binary64 x + x\<bar> = \<bar>binary64 x - x\<bar>" by simp
    ultimately show ?thesis using 3 by simp
  qed
qed

lemma binade_mono:
  assumes "0 < x" and "x \<le> y"
  shows "binade x \<le> binade y"
proof -
  from assms have "log 2 \<bar>x\<bar> \<le> log 2 \<bar>y\<bar>" by simp
  then show ?thesis unfolding binade_def by (rule floor_mono)
qed

lemma binary64_mono_pos:
  assumes "0 < x" and "x \<le> y"
  shows "binary64 x \<le> binary64 y"
proof -
  from assms have y: "0 < y" by simp
  from binade_mono [OF assms] have e: "binade x \<le> binade y" .
  show ?thesis
  proof (cases "binade x = binade y")
    case True
    define s :: real where "s = 2 powi (binade y - 52)"
    have s: "0 < s" by (simp add: s_def)
    with assms(2) have "x / s \<le> y / s" by (simp add: divide_right_mono)
    then have "round_even (x / s) \<le> round_even (y / s)" by (rule round_even_mono)
    then have "(of_int (round_even (x / s)) :: real) \<le> of_int (round_even (y / s))" by simp
    then have "of_int (round_even (x / s)) * s \<le> of_int (round_even (y / s)) * s"
      using s by (intro mult_right_mono) simp_all
    then show ?thesis
      unfolding binary64_pos(1) [OF assms(1)] binary64_pos(1) [OF y] True s_def .
  next
    case False
    with e have "binade x + 1 \<le> binade y" by simp
    then have "(2 :: real) powi (binade x + 1) \<le> 2 powi binade y"
      by (intro power_int_increasing) simp_all
    with binary64_pos(6) [OF assms(1)] binary64_pos(5) [OF y] show ?thesis by linarith
  qed
qed

lemma binary64_nonneg: "0 \<le> x \<Longrightarrow> 0 \<le> binary64 x"
proof (cases "x = 0")
  case False
  assume "0 \<le> x"
  with False have "0 < x" by simp
  from binary64_pos(5) [OF this] have "2 powi binade x \<le> binary64 x" .
  moreover have "(0 :: real) < 2 powi binade x" by simp
  ultimately show ?thesis by linarith
qed simp

lemma binary64_mono: "x \<le> y \<Longrightarrow> binary64 x \<le> binary64 y"
proof -
  assume xy: "x \<le> y"
  consider "0 < x" | "x \<le> 0" "0 \<le> y" | "y < 0" by linarith
  then show ?thesis
  proof cases
    case 1
    then show ?thesis using xy by (rule binary64_mono_pos)
  next
    case 2
    from 2(1) have "0 \<le> binary64 (- x)" by (intro binary64_nonneg) simp
    then have "binary64 x \<le> 0" by (simp add: binary64_minus)
    moreover from 2(2) have "0 \<le> binary64 y" by (rule binary64_nonneg)
    ultimately show ?thesis by simp
  next
    case 3
    then have "0 < - y" "- y \<le> - x" using xy by simp_all
    then have "binary64 (- y) \<le> binary64 (- x)" by (rule binary64_mono_pos)
    then show ?thesis by (simp add: binary64_minus)
  qed
qed

lemma binary64_idem_pos:
  assumes "0 < x"
  shows "binary64 (binary64 x) = binary64 x"
proof -
  define e where "e = binade x"
  define s :: real where "s = 2 powi (e - 52)"
  define k where "k = round_even (x / s)"
  define z where "z = binary64 x"
  have s: "0 < s" by (simp add: s_def)
  have z: "z = of_int k * s"
    unfolding z_def k_def s_def e_def by (rule binary64_pos(1) [OF assms])
  have k: "2 ^ 52 \<le> k" "k \<le> 2 ^ 53"
    unfolding k_def s_def e_def by (rule binary64_pos(2,3) [OF assms])+
  have lo: "2 powi e \<le> z" unfolding z_def e_def by (rule binary64_pos(5) [OF assms])
  have "(0 :: real) < 2 powi e" by simp
  with lo have z0: "0 < z" by linarith
  show ?thesis
  proof (cases "k = 2 ^ 53")
    case False
    with k(2) have "k < 2 ^ 53" by simp
    then have "(of_int k :: real) < 2 ^ 53"
      by (metis of_int_less_iff of_int_numeral of_int_power)
    then have "of_int k * s < 2 ^ 53 * s" using s by (intro mult_strict_right_mono)
    then have "z < 2 powi (e + 1)" unfolding z s_def ulp_scale .
    with lo z0 have "binade z = e" by (intro binade_eq) simp_all
    with binary64_pos(1) [OF z0] have "binary64 z = of_int (round_even (z / s)) * s"
      by (simp add: s_def)
    also from s have "z / s = of_int k" by (simp add: z)
    finally show ?thesis by (simp add: z z_def [symmetric])
  next
    case True
    then have zz: "z = 2 powi (e + 1)" unfolding z s_def using ulp_scale(2) [of e] by simp
    have "(2 :: real) powi (e + 1) < 2 powi (e + 1 + 1)"
      by (intro power_int_strict_increasing) simp_all
    with zz have "binade z = e + 1" by (intro binade_eq) simp_all
    with binary64_pos(1) [OF z0]
    have "binary64 z = of_int (round_even (z / 2 powi (e + 1 - 52))) * 2 powi (e + 1 - 52)"
      by simp
    also have "z / 2 powi (e + 1 - 52) = of_int (2 ^ 52)"
      unfolding zz using ulp_scale(1) [of "e + 1"] by (simp add: field_simps)
    also have "of_int (round_even (of_int (2 ^ 52))) * (2 :: real) powi (e + 1 - 52) = z"
      unfolding round_even_of_int zz using ulp_scale(1) [of "e + 1"] by simp
    finally show ?thesis by (simp add: z_def)
  qed
qed

lemma binary64_idem: "binary64 (binary64 x) = binary64 x"
proof -
  consider "0 < x" | "x = 0" | "0 < - x" by linarith
  then show ?thesis
  proof cases
    case 1
    then show ?thesis by (rule binary64_idem_pos)
  next
    case 2
    then show ?thesis by simp
  next
    case 3
    from binary64_idem_pos [OF this] show ?thesis by (simp add: binary64_minus)
  qed
qed


lemma binary64_eval:
  assumes "2 powi e \<le> \<bar>x\<bar>" and "\<bar>x\<bar> < 2 powi (e + 1)"
  shows "binary64 x = of_int (round_even (x / 2 powi (e - 52))) * 2 powi (e - 52)"
proof -
  have "(0 :: real) < 2 powi e" by simp
  with assms(1) have "0 < \<bar>x\<bar>" by linarith
  then have "x \<noteq> 0" by simp
  with binade_eq [OF assms] show ?thesis by (simp add: binary64_def)
qed

text \<open>An integer of at most 53 bits times a power of two is a float.\<close>

lemma binary64_dyadic_pos:
  assumes k: "0 < k" "k \<le> 2 ^ 53"
  shows "binary64 (of_int k * 2 powi j) = of_int k * 2 powi j"
proof -
  define x :: real where "x = of_int k * 2 powi j"
  define e where "e = binade x"
  define s :: real where "s = 2 powi (e - 52)"
  have s: "0 < s" by (simp add: s_def)
  from k(1) have x0: "0 < x" by (simp add: x_def)
  then have "x \<noteq> 0" by simp
  from binade_bounds [OF this] x0 have b: "2 powi e \<le> x" "x < 2 powi (e + 1)"
    by (simp_all add: e_def)
  from k(2) have kr: "(of_int k :: real) \<le> 2 ^ 53"
    by (metis of_int_le_iff of_int_numeral of_int_power)
  have p53: "(2 :: real) ^ 53 * 2 powi j = 2 powi (j + 53)"
    using power_int_add [of "2 :: real" j 53] by simp
  have "x \<le> 2 ^ 53 * 2 powi j" unfolding x_def using kr by (intro mult_right_mono) simp_all
  then have xu: "x \<le> 2 powi (j + 53)" unfolding p53 .
  have "\<exists>m. x / s = of_int m"
  proof (cases "e \<le> j + 52")
    case True
    define n where "n = nat (j + 52 - e)"
    from True have n: "j - (e - 52) = int n" by (simp add: n_def)
    have "x / s = of_int k * (2 powi j / 2 powi (e - 52))" by (simp add: x_def s_def)
    also have "(2 :: real) powi j / 2 powi (e - 52) = 2 powi (j - (e - 52))"
      by (rule power_int_diff [symmetric]) simp
    also have "\<dots> = 2 ^ n" unfolding n by simp
    finally have "x / s = of_int (k * 2 ^ n)" by simp
    then show ?thesis ..
  next
    case False
    then have "j + 53 \<le> e" by simp
    then have "(2 :: real) powi (j + 53) \<le> 2 powi e"
      by (intro power_int_increasing) simp_all
    with b(1) xu have xe: "x = 2 powi (j + 53)" "2 powi e = (2 :: real) powi (j + 53)"
      by linarith+
    have "e = j + 53"
    proof (rule ccontr)
      assume "e \<noteq> j + 53"
      with \<open>j + 53 \<le> e\<close> have "j + 53 < e" by simp
      then have "(2 :: real) powi (j + 53) < 2 powi e"
        by (intro power_int_strict_increasing) simp_all
      with xe(2) show False by simp
    qed
    then have "s = 2 powi (j + 53 - 52)" by (simp add: s_def)
    then have "2 ^ 52 * s = x" using ulp_scale(1) [of "j + 53"] xe(1) by simp
    with s have "x / s = of_int (2 ^ 52)" by (simp add: field_simps)
    then show ?thesis ..
  qed
  then obtain m where m: "x / s = of_int m" ..
  with s have "x = of_int m * s" by (simp add: field_simps)
  moreover from binary64_pos(1) [OF x0] have "binary64 x = of_int (round_even (x / s)) * s"
    by (simp add: s_def e_def)
  ultimately have "binary64 x = x" by (simp add: m)
  then show ?thesis by (simp add: x_def)
qed

lemma binary64_dyadic:
  assumes "\<bar>k\<bar> \<le> 2 ^ 53"
  shows "binary64 (of_int k * 2 powi j) = of_int k * 2 powi j"
proof -
  consider "0 < k" | "k = 0" | "0 < - k" by linarith
  then show ?thesis
  proof cases
    case 1
    with assms show ?thesis by (intro binary64_dyadic_pos) simp_all
  next
    case 2
    then show ?thesis by simp
  next
    case 3
    with assms have "binary64 (of_int (- k) * 2 powi j) = of_int (- k) * 2 powi j"
      by (intro binary64_dyadic_pos) simp_all
    then have "binary64 (- (of_int k * 2 powi j)) = - (of_int k * 2 powi j)" by simp
    then show ?thesis unfolding binary64_minus by simp
  qed
qed

lemma binary64_of_int: "\<bar>k\<bar> \<le> 2 ^ 53 \<Longrightarrow> binary64 (of_int k) = of_int k"
  using binary64_dyadic [of k 0] by simp

text \<open>
  Binary64 rounding is monotone and idempotent, and its unit roundoff is \<open>2^-53\<close>.
\<close>

lemma binary64_rounding:
  "monotone_rounding binary64" "idempotent_rounding binary64"
  "unit_roundoff binary64 (1 / 2 ^ 53)"
  using binary64_mono binary64_idem binary64_error
  by (simp_all add: monotone_rounding_def idempotent_rounding_def unit_roundoff_def)

lemma binary64_small_int:
  "binary64 0 = 0" "binary64 1 = 1" "binary64 3 = 3" "binary64 6 = 6" "binary64 7 = 7"
  "binary64 10 = 10" "binary64 14 = 14" "binary64 20 = 20" "binary64 50 = 50"
  "binary64 64 = 64" "binary64 200 = 200" "binary64 300 = 300" "binary64 500 = 500"
  "binary64 512 = 512" "binary64 600 = 600" "binary64 700 = 700" "binary64 1000 = 1000"
  using binary64_of_int [of 1] binary64_of_int [of 3] binary64_of_int [of 6]
    binary64_of_int [of 7] binary64_of_int [of 10] binary64_of_int [of 14]
    binary64_of_int [of 20] binary64_of_int [of 50] binary64_of_int [of 64]
    binary64_of_int [of 200] binary64_of_int [of 300] binary64_of_int [of 500]
    binary64_of_int [of 512] binary64_of_int [of 600] binary64_of_int [of 700]
    binary64_of_int [of 1000]
  by simp_all

lemma binary64_small_dyadic:
  "binary64 (1 / 262144) = 1 / 262144" "binary64 (1 / 524288) = 1 / 524288"
  "binary64 (1 / 2097152) = 1 / 2097152"
  using binary64_dyadic [of 1 "- 18"] binary64_dyadic [of 1 "- 19"] binary64_dyadic [of 1 "- 21"]
  by (simp_all add: power_int_minus)

subsection \<open>The node list\<close>

lemma station_simps [simp]:
  "fs (station f m) = Some f" "route_miles (station f m) = m" "price (station f m) = Fin (fs_price f)"
  by (simp_all add: station_def)

lemma terminal_simps [simp]:
  "fs (terminal t) = None" "route_miles (terminal t) = t" "price (terminal t) = PInf"
  by (simp_all add: terminal_def)

lemma stop_at_simps [simp]:
  "fs_id (stop_at i p) = i" "fs_price (stop_at i p) = p"
  by (simp_all add: stop_at_def)

lemma insort_key_snoc:
  "f x \<le> f t \<Longrightarrow> insort_key f x (ys @ [t]) = insort_key f x ys @ [t]"
  by (induction ys) simp_all

lemma sort_key_snoc:
  "\<forall>x\<in>set xs. f x \<le> f t \<Longrightarrow> sort_key f (xs @ [t]) = sort_key f xs @ [t]"
  by (induction xs) (simp_all add: insort_key_snoc)

lemma build_nodes_eq:
  "build_nodes stations total_miles =
     sort_key route_miles (filter (\<lambda>n. route_miles n \<le> total_miles) stations)
     @ [terminal total_miles]"
  unfolding build_nodes_def terminal_def by (rule sort_key_snoc) simp

lemma build_nodes_sorted: "sorted (map route_miles (build_nodes stations total_miles))"
  unfolding build_nodes_def by (rule sorted_sort_key)

lemma build_nodes_length:
  "length (build_nodes stations total_miles) =
     length (filter (\<lambda>n. route_miles n \<le> total_miles) stations) + 1"
  by (simp add: build_nodes_def)

lemma build_nodes_last:
  "build_nodes stations total_miles ! (length (build_nodes stations total_miles) - 1)
     = terminal total_miles"
  by (simp add: build_nodes_eq nth_append)

lemma build_nodes_scanned:
  assumes "i + 1 < length (build_nodes stations total_miles)"
  shows "build_nodes stations total_miles ! i \<in> set stations
    \<and> route_miles (build_nodes stations total_miles ! i) \<le> total_miles"
proof -
  let ?xs = "sort_key route_miles (filter (\<lambda>n. route_miles n \<le> total_miles) stations)"
  from assms have i: "i < length ?xs" by (simp add: build_nodes_eq)
  then have "build_nodes stations total_miles ! i = ?xs ! i"
    by (simp add: build_nodes_eq nth_append)
  moreover from i have "?xs ! i \<in> set ?xs" by (rule nth_mem)
  ultimately show ?thesis by simp
qed

subsection \<open>The feasibility check\<close>

lemma first_gap_Some:
  "first_gap fl nodes r i = Some g \<Longrightarrow>
   \<exists>k\<ge>i. k + 1 < length nodes \<and> g = computed_gap fl nodes k \<and> threshold fl r < g
        \<and> (\<forall>j. i \<le> j \<and> j < k \<longrightarrow> computed_gap fl nodes j \<le> threshold fl r)"
proof (induction fl nodes r i rule: first_gap.induct)
  case (1 fl nodes r i)
  show ?case
  proof (cases "i < length nodes - 1")
    case False
    with "1.prems" show ?thesis by (simp add: first_gap.simps [of fl nodes r i])
  next
    case True
    show ?thesis
    proof (cases "computed_gap fl nodes i > threshold fl r")
      case big: True
      with True "1.prems" have "g = computed_gap fl nodes i"
        by (simp add: first_gap.simps [of fl nodes r i] computed_gap_def threshold_def)
      with True big show ?thesis by (intro exI [of _ i]) auto
    next
      case small: False
      with True "1.prems" have "first_gap fl nodes r (i + 1) = Some g"
        by (simp add: first_gap.simps [of fl nodes r i] computed_gap_def threshold_def)
      with "1.IH" True small obtain k where k: "i + 1 \<le> k" "k + 1 < length nodes"
        "g = computed_gap fl nodes k" "threshold fl r < g"
        "\<forall>j. i + 1 \<le> j \<and> j < k \<longrightarrow> computed_gap fl nodes j \<le> threshold fl r"
        by (auto simp: computed_gap_def threshold_def)
      have "\<forall>j. i \<le> j \<and> j < k \<longrightarrow> computed_gap fl nodes j \<le> threshold fl r"
      proof (intro allI impI)
        fix j assume "i \<le> j \<and> j < k"
        then consider "j = i" | "i + 1 \<le> j \<and> j < k" by linarith
        then show "computed_gap fl nodes j \<le> threshold fl r"
          using small k(5) by cases auto
      qed
      with k show ?thesis by (intro exI [of _ k]) auto
    qed
  qed
qed

lemma first_gap_None:
  "first_gap fl nodes r i = None \<Longrightarrow> i \<le> k \<Longrightarrow> k + 1 < length nodes \<Longrightarrow>
   computed_gap fl nodes k \<le> threshold fl r"
proof (induction fl nodes r i rule: first_gap.induct)
  case (1 fl nodes r i)
  from "1.prems" have lt: "i < length nodes - 1" by simp
  with "1.prems" have small: "\<not> computed_gap fl nodes i > threshold fl r"
    and rest: "first_gap fl nodes r (i + 1) = None"
    by (auto simp: first_gap.simps [of fl nodes r i] computed_gap_def threshold_def
        split: if_splits)
  show ?case
  proof (cases "k = i")
    case True
    with small show ?thesis by simp
  next
    case False
    with "1.prems" have "i + 1 \<le> k" by simp
    with "1.IH" lt small rest "1.prems" show ?thesis
      by (simp add: computed_gap_def threshold_def)
  qed
qed

lemma first_gap_feasible:
  assumes "\<forall>i. i + 1 < length nodes \<longrightarrow> computed_gap fl nodes i \<le> threshold fl r"
  shows "first_gap fl nodes r 0 = None"
proof (rule ccontr)
  assume "first_gap fl nodes r 0 \<noteq> None"
  then obtain g where "first_gap fl nodes r 0 = Some g" by auto
  from first_gap_Some [OF this] obtain k where "k + 1 < length nodes"
    "g = computed_gap fl nodes k" "threshold fl r < g" by auto
  with assms show False by fastforce
qed

text \<open>
  Claim C1, amended: when \<open>mpg\<close> is not zero and some consecutive pair of the sorted
  node list (the stations up to \<open>total_miles\<close> and the terminal node) has a gap that
  exceeds \<^verbatim>\<open>max_range_miles + 1e-6\<close> (gap and threshold as line 113 computes them, in
  whatever rounding), \<^verbatim>\<open>min_cost_plan\<close> returns no plan and the failure
  \<^verbatim>\<open>NO_FEASIBLE_PLAN\<close> with the first such gap as \<^verbatim>\<open>gap_miles\<close>. The check runs
  before the scan, so nothing of a plan is built.
\<close>

theorem infeasible_gap_reported:
  assumes "mpg \<noteq> 0"
    and "\<exists>i. i + 1 < length (build_nodes stations total_miles)
            \<and> threshold fl max_range_miles < computed_gap fl (build_nodes stations total_miles) i"
  shows "\<exists>k. k + 1 < length (build_nodes stations total_miles)
      \<and> threshold fl max_range_miles < computed_gap fl (build_nodes stations total_miles) k
      \<and> (\<forall>j<k. computed_gap fl (build_nodes stations total_miles) j
                  \<le> threshold fl max_range_miles)
      \<and> min_cost_plan fl stations total_miles mpg max_range_miles
          = Inr (None,
                 Some (NO_FEASIBLE_PLAN (computed_gap fl (build_nodes stations total_miles) k)))"
proof -
  let ?nodes = "build_nodes stations total_miles"
  from assms(2) obtain i where i: "i + 1 < length ?nodes"
    "threshold fl max_range_miles < computed_gap fl ?nodes i" by blast
  have "first_gap fl ?nodes max_range_miles 0 \<noteq> None"
  proof
    assume "first_gap fl ?nodes max_range_miles 0 = None"
    from first_gap_None [OF this _ i(1)] i(2) show False by simp
  qed
  then obtain g where g: "first_gap fl ?nodes max_range_miles 0 = Some g" by auto
  from first_gap_Some [OF g] obtain k where k: "k + 1 < length ?nodes"
    "g = computed_gap fl ?nodes k" "threshold fl max_range_miles < g"
    "\<forall>j. j < k \<longrightarrow> computed_gap fl ?nodes j \<le> threshold fl max_range_miles"
    by auto
  from g assms(1) have "min_cost_plan fl stations total_miles mpg max_range_miles
      = Inr (None, Some (NO_FEASIBLE_PLAN g))"
    by (simp add: min_cost_plan_def)
  with k show ?thesis by (intro exI [of _ k]) auto
qed

lemma three_nodes:
  "build_nodes [station (stop_at 1 3) 0, station (stop_at 2 3) 100, station (stop_at 3 3) 650] 650
   = [station (stop_at 1 3) 0, station (stop_at 2 3) 100, station (stop_at 3 3) 650, terminal 650]"
  by (simp add: build_nodes_eq)

lemma threshold_roundings:
  "binary64 (1 / 1000000) = 4722366482869645 / 4722366482869645213696"
  "binary64 (2361183246157189089717645 / 4722366482869645213696)
     = 4398046519900093 / 8796093022208"
  "binary64 100 = 100" "binary64 550 = 550"
proof -
  show "binary64 (1 / 1000000) = 4722366482869645 / 4722366482869645213696"
    using binary64_eval [of "- 20" "1 / 1000000"]
    by (simp add: round_even_def power_int_minus)
  show "binary64 (2361183246157189089717645 / 4722366482869645213696)
     = 4398046519900093 / 8796093022208"
    using binary64_eval [of 8 "2361183246157189089717645 / 4722366482869645213696"]
    by (simp add: round_even_def power_int_minus)
  show "binary64 100 = 100" "binary64 550 = 550"
    using binary64_of_int [of 100] binary64_of_int [of 550] by simp_all
qed

text \<open>
  The specification's example, stations at miles 0, 100 and 650 with a range of 500, in
  exact arithmetic and in binary64 (where the threshold is the float nearest to
  500.000001).
\<close>

theorem infeasible_gap_reported_witness:
  "min_cost_plan id [station (stop_at 1 3) 0, station (stop_at 2 3) 100, station (stop_at 3 3) 650]
     650 10 500 = Inr (None, Some (NO_FEASIBLE_PLAN 550))
   \<and> min_cost_plan binary64
       [station (stop_at 1 3) 0, station (stop_at 2 3) 100, station (stop_at 3 3) 650]
       650 10 500 = Inr (None, Some (NO_FEASIBLE_PLAN 550))"
proof -
  let ?sts = "[station (stop_at 1 3) 0, station (stop_at 2 3) 100, station (stop_at 3 3) 650]"
  have h1: "(10 :: real) \<noteq> 0" by simp
  have h2: "\<exists>i. i + 1 < length (build_nodes ?sts 650)
            \<and> threshold id 500 < computed_gap id (build_nodes ?sts 650) i"
    by (rule exI [of _ 1]) (simp add: three_nodes computed_gap_def threshold_def)
  from infeasible_gap_reported [OF h1 h2] obtain k where
    k: "k + 1 < length (build_nodes ?sts 650)"
    "threshold id 500 < computed_gap id (build_nodes ?sts 650) k"
    "min_cost_plan id ?sts 650 10 500
       = Inr (None, Some (NO_FEASIBLE_PLAN (computed_gap id (build_nodes ?sts 650) k)))"
    by blast
  from k(1) have "k = 0 \<or> k = 1 \<or> k = 2" by (auto simp: three_nodes)
  with k(2) have "k = 1" by (auto simp: three_nodes computed_gap_def threshold_def)
  with k(3) have 1: "min_cost_plan id ?sts 650 10 500 = Inr (None, Some (NO_FEASIBLE_PLAN 550))"
    by (simp add: three_nodes computed_gap_def)
  have thr: "threshold binary64 500 = 4398046519900093 / 8796093022208"
    by (simp add: threshold_def threshold_roundings)
  have gaps: "computed_gap binary64 (build_nodes ?sts 650) 0 = 100"
    "computed_gap binary64 (build_nodes ?sts 650) (Suc 0) = 550"
    "computed_gap binary64 (build_nodes ?sts 650) (Suc (Suc 0)) = 0"
    by (simp_all add: three_nodes computed_gap_def threshold_roundings)
  have "Suc 0 + 1 < length (build_nodes ?sts 650)" by (simp add: three_nodes)
  moreover have "threshold binary64 500 < computed_gap binary64 (build_nodes ?sts 650) (Suc 0)"
    unfolding thr gaps by simp
  ultimately have h3: "\<exists>i. i + 1 < length (build_nodes ?sts 650)
            \<and> threshold binary64 500 < computed_gap binary64 (build_nodes ?sts 650) i"
    by blast
  from infeasible_gap_reported [OF h1 h3] obtain j where
    j: "j + 1 < length (build_nodes ?sts 650)"
    "threshold binary64 500 < computed_gap binary64 (build_nodes ?sts 650) j"
    "min_cost_plan binary64 ?sts 650 10 500
       = Inr (None, Some (NO_FEASIBLE_PLAN (computed_gap binary64 (build_nodes ?sts 650) j)))"
    by blast
  from j(1) have "j = 0 \<or> j = Suc 0 \<or> j = Suc (Suc 0)" by (auto simp: three_nodes)
  with j(2) have "j = Suc 0" by (auto simp: thr gaps)
  with j(3) gaps(2) have 2: "min_cost_plan binary64 ?sts 650 10 500
      = Inr (None, Some (NO_FEASIBLE_PLAN 550))"
    by (simp only:)
  from 1 2 show ?thesis by (rule conjI)
qed

text \<open>
  Claim C1, as stated, has no condition on \<open>mpg\<close>. With \<open>mpg = 0\<close> line 107 divides by
  zero before the feasibility loop is reached, whatever the rounding: on the stations at
  miles 0, 100 and 650 with a range of 500 the gap 550 exceeds the threshold (in exact
  arithmetic and in binary64), but the call raises \<^verbatim>\<open>ZeroDivisionError\<close> instead of
  returning \<^verbatim>\<open>NO_FEASIBLE_PLAN\<close>.
\<close>

theorem zero_mpg_counterexample:
  "(\<forall>fl. min_cost_plan fl
            [station (stop_at 1 3) 0, station (stop_at 2 3) 100, station (stop_at 3 3) 650]
            650 0 500 = Inl ZeroDivisionError)
   \<and> computed_gap id
        (build_nodes [station (stop_at 1 3) 0, station (stop_at 2 3) 100, station (stop_at 3 3) 650]
           650) 1 = 550
   \<and> threshold id 500 < 550
   \<and> computed_gap binary64
        (build_nodes [station (stop_at 1 3) 0, station (stop_at 2 3) 100, station (stop_at 3 3) 650]
           650) 1 = 550
   \<and> threshold binary64 500 < 550"
  by (simp add: three_nodes min_cost_plan_def computed_gap_def threshold_def threshold_roundings)

subsection \<open>The forward scan\<close>

lemma scan_from_prefix:
  "i \<le> length nodes - 1 \<Longrightarrow> st = scan_prefix fl nodes t m r i \<Longrightarrow>
   scan fl nodes t m r i st = scan_prefix fl nodes t m r (length nodes - 1)"
proof (induction fl nodes t m r i st rule: scan.induct)
  case (1 fl nodes t m r i st)
  show ?case
  proof (cases "i < length nodes - 1")
    case True
    with "1.IH" "1.prems" show ?thesis
      by (simp add: scan.simps [of fl nodes t m r i])
  next
    case False
    then have "scan fl nodes t m r i st = st" by (simp add: scan.simps [of fl nodes t m r i])
    moreover from False "1.prems" have "i = length nodes - 1" by simp
    ultimately show ?thesis using "1.prems" by simp
  qed
qed

lemma scan_is_prefix:
  "scan fl nodes t m r 0 \<lparr>fuel = 0, acc_cost = Fin 0, acc_plan = []\<rparr>
     = scan_prefix fl nodes t m r (length nodes - 1)"
  by (rule scan_from_prefix) simp_all

lemma min_cost_plan_feasible:
  assumes "mpg \<noteq> 0" and "first_gap fl (build_nodes stations total_miles) max_range_miles 0 = None"
  shows "min_cost_plan fl stations total_miles mpg max_range_miles =
     Inr (Some \<lparr>stops = acc_plan (scan_prefix fl (build_nodes stations total_miles) total_miles mpg
                                   max_range_miles (length (build_nodes stations total_miles) - 1)),
                 total_cost = fround fl (acc_cost (scan_prefix fl (build_nodes stations total_miles)
                                   total_miles mpg max_range_miles
                                   (length (build_nodes stations total_miles) - 1))) 4,
                 tank_gallons_capacity = fl (py_round (fl (max_range_miles / mpg)) 4)\<rparr>, None)"
  using assms by (simp add: min_cost_plan_def scan_is_prefix Let_def)

lemma min_cost_plan_SomeD:
  assumes "min_cost_plan fl stations total_miles mpg max_range_miles = Inr (Some p, e)"
  shows "mpg \<noteq> 0 \<and> first_gap fl (build_nodes stations total_miles) max_range_miles 0 = None \<and> e = None
    \<and> stops p = acc_plan (scan_prefix fl (build_nodes stations total_miles) total_miles mpg
                                   max_range_miles (length (build_nodes stations total_miles) - 1))
    \<and> total_cost p = fround fl (acc_cost (scan_prefix fl (build_nodes stations total_miles)
                                   total_miles mpg max_range_miles
                                   (length (build_nodes stations total_miles) - 1))) 4"
  using assms
  by (auto simp: min_cost_plan_def scan_is_prefix Let_def split: if_splits option.splits)

lemma fuel_step:
  "fuel (scan_prefix fl nodes t m r (Suc n)) =
     fl (fuel_after_purchase fl nodes t m r n - fl (computed_gap fl nodes n / m))"
  by (simp add: scan_step_def Let_def bought_at_def fuel_after_purchase_def computed_gap_def)

lemma acc_cost_step:
  "acc_cost (scan_prefix fl nodes t m r (Suc n)) =
     fadd fl (acc_cost (scan_prefix fl nodes t m r n)) (cost_at fl nodes t m r n)"
  by (simp add: scan_step_def Let_def bought_at_def cost_at_def)

lemma acc_plan_step:
  "acc_plan (scan_prefix fl nodes t m r (Suc n)) =
     acc_plan (scan_prefix fl nodes t m r n) @
     (case fs (nodes ! n) of
        Some f \<Rightarrow> if fl (1 / 1000000) < bought_at fl nodes t m r n
                  then [stop_entry fl f (route_miles (nodes ! n)) (bought_at fl nodes t m r n)
                          (cost_at fl nodes t m r n)]
                  else []
      | None \<Rightarrow> [])"
  by (simp add: scan_step_def Let_def bought_at_def cost_at_def split: option.splits)

lemma acc_cost_prefix:
  "acc_cost (scan_prefix fl nodes t m r n) = fsum fl (map (cost_at fl nodes t m r) [0..<n])"
  by (induction n) (simp_all add: acc_cost_step fsum_def del: scan_prefix.simps(2))

lemma acc_plan_prefix:
  "acc_plan (scan_prefix fl nodes t m r n) =
     map (\<lambda>k. stop_entry fl (the (fs (nodes ! k))) (route_miles (nodes ! k))
                 (bought_at fl nodes t m r k) (cost_at fl nodes t m r k))
         (filter (recorded fl nodes t m r) [0..<n])"
  by (induction n)
     (auto simp: acc_plan_step recorded_def simp del: scan_prefix.simps(2) split: option.splits)

text \<open>Unfolding the planner on a concrete input.\<close>

lemmas plan_eval = min_cost_plan_def first_gap.simps scan.simps scan_step_def buy_gal_def
  target_miles_def find_cheaper.simps Let_def

lemma py_round_20: "py_round 20 4 = 20" "py_round 40 4 = 40" "py_round 50 4 = 50"
  "py_round 80 4 = 80" "py_round 120 4 = 120" "py_round 200 4 = 200" "py_round 200 3 = 200"
  "py_round 0 3 = 0"
  by (simp_all add: py_round_def)

lemma cheaper_nodes:
  "build_nodes [station (stop_at 1 4) 0, station (stop_at 2 3) 200] 600
   = [station (stop_at 1 4) 0, station (stop_at 2 3) 200, terminal 600]"
  by (simp add: build_nodes_eq)

lemma cheaper_plan:
  "min_cost_plan id [station (stop_at 1 4) 0, station (stop_at 2 3) 200] 600 10 500
   = Inr (Some \<lparr>stops = [stop_entry id (stop_at 1 4) 0 20 (Fin 80),
                          stop_entry id (stop_at 2 3) 200 40 (Fin 120)],
                 total_cost = Fin 200, tank_gallons_capacity = 50\<rparr>, None)"
  by (simp add: plan_eval cheaper_nodes py_round_20 stop_entry_def)

subsection \<open>The look-ahead\<close>

lemma find_cheaper_Some:
  "find_cheaper fl nodes hm hp r k = Some j \<Longrightarrow>
   k \<le> j \<and> j < length nodes \<and> fl (route_miles (nodes ! j) - hm) \<le> r
   \<and> fless (price (nodes ! j)) hp"
proof (induction fl nodes hm hp r k rule: find_cheaper.induct)
  case (1 fl nodes hm hp r k)
  from "1.prems" have lt: "k < length nodes"
    by (simp add: find_cheaper.simps [of fl nodes hm hp r k] split: if_splits)
  from "1.prems" lt have inr: "\<not> fl (route_miles (nodes ! k) - hm) > r"
    by (simp add: find_cheaper.simps [of fl nodes hm hp r k] split: if_splits)
  show ?case
  proof (cases "fless (price (nodes ! k)) hp")
    case True
    with "1.prems" lt inr have "j = k"
      by (simp add: find_cheaper.simps [of fl nodes hm hp r k])
    with lt inr True show ?thesis by simp
  next
    case False
    with "1.prems" lt inr have "find_cheaper fl nodes hm hp r (k + 1) = Some j"
      by (simp add: find_cheaper.simps [of fl nodes hm hp r k])
    from "1.IH" [OF lt inr False this] show ?thesis by simp
  qed
qed

lemma route_miles_mono:
  "sorted (map route_miles nodes) \<Longrightarrow> i \<le> j \<Longrightarrow> j < length nodes \<Longrightarrow>
   route_miles (nodes ! i) \<le> route_miles (nodes ! j)"
  using sorted_nth_mono [of "map route_miles nodes" i j] by simp

text \<open>
  On a sorted node list, and with a monotone rounding, the look-ahead loop with its two
  breaks finds the first later node that is in range and strictly cheaper.
\<close>

lemma find_cheaper_eq_find:
  "monotone_rounding fl \<Longrightarrow> sorted (map route_miles nodes) \<Longrightarrow>
   find_cheaper fl nodes hm hp r k =
     find (\<lambda>j. fl (route_miles (nodes ! j) - hm) \<le> r \<and> fless (price (nodes ! j)) hp)
          [k ..< length nodes]"
proof (induction fl nodes hm hp r k rule: find_cheaper.induct)
  case (1 fl nodes hm hp r k)
  note mono = "1.prems"(1) and srt = "1.prems"(2)
  show ?case
  proof (cases "k < length nodes")
    case False
    then show ?thesis by (simp add: find_cheaper.simps [of fl nodes hm hp r k])
  next
    case lt: True
    then have upt: "[k ..< length nodes] = k # [k + 1 ..< length nodes]"
      by (simp add: upt_conv_Cons)
    show ?thesis
    proof (cases "fl (route_miles (nodes ! k) - hm) > r")
      case far: True
      have "\<not> (fl (route_miles (nodes ! j) - hm) \<le> r \<and> fless (price (nodes ! j)) hp)"
        if "j \<in> set [k ..< length nodes]" for j
      proof -
        from that have "k \<le> j" "j < length nodes" by simp_all
        with srt have "route_miles (nodes ! k) - hm \<le> route_miles (nodes ! j) - hm"
          using route_miles_mono [of nodes k j] by simp
        with mono have "fl (route_miles (nodes ! k) - hm) \<le> fl (route_miles (nodes ! j) - hm)"
          by (simp add: monotone_rounding_def)
        with far show ?thesis by simp
      qed
      then have "find (\<lambda>j. fl (route_miles (nodes ! j) - hm) \<le> r
                            \<and> fless (price (nodes ! j)) hp) [k ..< length nodes] = None"
        unfolding find_None_iff by blast
      with lt far show ?thesis by (simp add: find_cheaper.simps [of fl nodes hm hp r k])
    next
      case near: False
      show ?thesis
      proof (cases "fless (price (nodes ! k)) hp")
        case True
        with lt near show ?thesis
          by (simp add: find_cheaper.simps [of fl nodes hm hp r k] upt)
      next
        case False
        with "1.IH" [OF lt near False mono srt] lt near show ?thesis
          by (simp add: find_cheaper.simps [of fl nodes hm hp r k] upt)
      qed
    qed
  qed
qed

lemma buy_gal_refines:
  assumes "monotone_rounding fl" and "sorted (map route_miles nodes)"
  shows "buy_gal fl nodes t m r i f
     = max 0 (fl (min (fl (r / m)) (required_gallons fl nodes t m r i) - f))"
  by (simp add: buy_gal_def target_miles_def required_gallons_def first_cheaper_in_range_def
      find_cheaper_eq_find [OF assms] Let_def)

text \<open>
  Claim C4: whenever \<^verbatim>\<open>min_cost_plan\<close> returns a plan, every entry of its stops list was
  recorded at a node \<open>k\<close> before the last position of the node list; that node is one of
  the input stations with a catalogue entry \<open>f\<close>, differs from the terminal node, and the
  entry carries the fields of \<open>f\<close>, its price being the (finite) catalogue price. The
  terminal node is the last node, which the scan never visits. This holds in every
  rounding.
\<close>

theorem plan_entries_are_stations:
  assumes "min_cost_plan fl stations total_miles mpg max_range_miles = Inr (Some p, e)"
  shows "(\<forall>s\<in>set (stops p). \<exists>k f.
            k + 1 < length (build_nodes stations total_miles)
          \<and> build_nodes stations total_miles ! k \<in> set stations
          \<and> build_nodes stations total_miles ! k \<noteq> terminal total_miles
          \<and> fs (build_nodes stations total_miles ! k) = Some f
          \<and> s = stop_entry fl f (route_miles (build_nodes stations total_miles ! k))
                  (bought_at fl (build_nodes stations total_miles) total_miles mpg
                     max_range_miles k)
                  (cost_at fl (build_nodes stations total_miles) total_miles mpg
                     max_range_miles k)
          \<and> s_price s = fs_price f)
       \<and> build_nodes stations total_miles ! (length (build_nodes stations total_miles) - 1)
           = terminal total_miles"
proof -
  let ?nodes = "build_nodes stations total_miles"
  let ?b = "bought_at fl ?nodes total_miles mpg max_range_miles"
  let ?c = "cost_at fl ?nodes total_miles mpg max_range_miles"
  from min_cost_plan_SomeD [OF assms]
  have stops: "stops p = acc_plan (scan_prefix fl ?nodes total_miles mpg max_range_miles
                                     (length ?nodes - 1))"
    by simp
  have "\<exists>k f. k + 1 < length ?nodes \<and> ?nodes ! k \<in> set stations
          \<and> ?nodes ! k \<noteq> terminal total_miles \<and> fs (?nodes ! k) = Some f
          \<and> s = stop_entry fl f (route_miles (?nodes ! k)) (?b k) (?c k)
          \<and> s_price s = fs_price f"
    if "s \<in> set (stops p)" for s
  proof -
    from that obtain k where k: "k < length ?nodes - 1" "fs (?nodes ! k) \<noteq> None"
      "s = stop_entry fl (the (fs (?nodes ! k))) (route_miles (?nodes ! k)) (?b k) (?c k)"
      unfolding stops acc_plan_prefix by (auto simp: recorded_def)
    from k(2) obtain f where f: "fs (?nodes ! k) = Some f" by auto
    from k(1) have k1: "k + 1 < length ?nodes" by simp
    from f have "?nodes ! k \<noteq> terminal total_miles" by auto
    moreover from k(3) f have "s_price s = fs_price f" by (simp add: stop_entry_def)
    ultimately show ?thesis
      using k1 f k(3) build_nodes_scanned [OF k1] by (intro exI [of _ k] exI [of _ f]) simp
  qed
  then show ?thesis using build_nodes_last by blast
qed

theorem plan_entries_are_stations_witness:
  "\<exists>k f. k + 1 < length (build_nodes [station (stop_at 1 4) 0, station (stop_at 2 3) 200] 600)
     \<and> fs (build_nodes [station (stop_at 1 4) 0, station (stop_at 2 3) 200] 600 ! k) = Some f
     \<and> s_price (stop_entry id (stop_at 1 4) 0 20 (Fin 80)) = fs_price f"
proof -
  let ?sts = "[station (stop_at 1 4) 0, station (stop_at 2 3) 200]"
  have "stop_entry id (stop_at 1 4) 0 20 (Fin 80)
      \<in> set [stop_entry id (stop_at 1 4) 0 20 (Fin 80),
              stop_entry id (stop_at 2 3) 200 40 (Fin 120)]"
    by simp
  with plan_entries_are_stations [OF cheaper_plan] show ?thesis by fastforce
qed

text \<open>
  The worked example of the specification, for any route length from 200 to 700 miles, in
  a monotone rounding in which 0, 1, 20, 50, 200 and 500 are floats.
\<close>

lemma cheaper_example:
  assumes mono: "monotone_rounding fl"
    and ex: "fl 0 = 0" "fl 1 = 1" "fl 20 = 20" "fl 50 = 50" "fl 200 = 200" "fl 500 = 500"
    and t: "200 \<le> t" "t \<le> 700"
  shows "\<exists>p. min_cost_plan fl [station (stop_at 1 4) 0, station (stop_at 2 3) 200] t 10 500
                = Inr (Some p, None)
             \<and> stops p \<noteq> [] \<and> s_id (hd (stops p)) = 1 \<and> gallons_bought (hd (stops p)) = 20
             \<and> tank_gallons_capacity p = 50"
proof -
  from mono have mono: "\<And>x y. x \<le> y \<Longrightarrow> fl x \<le> fl y"
    by (simp add: monotone_rounding_def)
  let ?sts = "[station (stop_at 1 4) 0, station (stop_at 2 3) 200]"
  let ?nodes = "[station (stop_at 1 4) 0, station (stop_at 2 3) 200, terminal t]"
  from t have nodes: "build_nodes ?sts t = ?nodes"
    by (simp add: build_nodes_eq)
  have eps: "0 \<le> fl (1 / 1000000)" "fl (1 / 1000000) \<le> 1"
    using mono [of 0 "1 / 1000000"] mono [of "1 / 1000000" 1] ex by simp_all
  then have thr: "500 \<le> threshold fl 500"
    using mono [of 500 "500 + fl (1 / 1000000)"] ex by (simp add: threshold_def)
  have g0: "computed_gap fl ?nodes 0 = 200"
    by (simp add: computed_gap_def ex)
  have g1: "computed_gap fl ?nodes 1 \<le> 500"
    using mono [of "t - 200" 500] t ex by (simp add: computed_gap_def)
  have feasible: "first_gap fl ?nodes 500 0 = None"
  proof (rule first_gap_feasible, intro allI impI)
    fix i assume "i + 1 < length ?nodes"
    then have "i = 0 \<or> i = 1" by auto
    with g0 g1 thr show "computed_gap fl ?nodes i \<le> threshold fl 500" by auto
  qed
  have look: "find_cheaper fl ?nodes 0 (Fin 4) 500 (Suc 0) = Some (Suc 0)"
    by (simp add: find_cheaper.simps [of fl ?nodes 0 "Fin 4" 500 "Suc 0"] ex)
  have b0: "bought_at fl ?nodes t 10 500 0 = 20"
    by (simp add: bought_at_def buy_gal_def target_miles_def look Let_def ex)
  have "length ?nodes - 1 = Suc (Suc 0)" by simp
  then have "acc_plan (scan_prefix fl ?nodes t 10 500 (length ?nodes - 1))
      = stop_entry fl (stop_at 1 4) 0 20 (cost_at fl ?nodes t 10 500 0)
        # (if fl (1 / 1000000) < bought_at fl ?nodes t 10 500 1
           then [stop_entry fl (stop_at 2 3) 200 (bought_at fl ?nodes t 10 500 1)
                   (cost_at fl ?nodes t 10 500 1)]
           else [])"
    using b0 eps by (simp add: acc_plan_step del: scan_prefix.simps(2))
  moreover have "s_id (stop_entry fl (stop_at 1 4) 0 20 c) = 1
      \<and> gallons_bought (stop_entry fl (stop_at 1 4) 0 20 c) = 20" for c
    by (simp add: stop_entry_def py_round_20 ex)
  moreover have "fl (py_round (fl (500 / 10)) 4) = 50"
    by (simp add: py_round_20 ex)
  ultimately show ?thesis
    using min_cost_plan_feasible [of 10 fl ?sts t 500] feasible
    by (simp add: nodes del: scan_prefix.simps(2))
qed

text \<open>
  Claim C3: on the node list of \<^verbatim>\<open>min_cost_plan\<close> the gallons bought at node \<open>i\<close> with
  fuel level \<open>fuel_level\<close> are \<open>max(0, min(tankCapacity, requiredGallons) - fuelLevel)\<close>,
  where the required gallons cover the distance to the first later node within
  \<open>max_range_miles\<close> that is strictly cheaper or, if there is none, to
  \<open>min(total_miles, here + max_range_miles)\<close>. In particular, with a start station at
  4.00 at mile 0, a station at 3.00 at mile 200, a range of 500 and 10 miles per gallon
  (and any route length from 200 to 700 miles, for which both stations count and the plan
  is feasible) the first entry of the plan is the start station with 20 gallons, while
  the tank holds 50. Both statements hold in exact arithmetic (the first two parts of the
  theorem) and in every monotone rounding of the float operations (the last two parts;
  for the example, a rounding in which 0, 1, 20, 50, 200 and 500 are floats, as they are
  in binary64).
\<close>

theorem buy_gal_formula:
  "buy_gal id (build_nodes stations total_miles) total_miles mpg max_range_miles i fuel_level
     = max 0 (min (max_range_miles / mpg)
                  (required_gallons id (build_nodes stations total_miles) total_miles mpg
                     max_range_miles i)
              - fuel_level)
   \<and> (\<forall>t. 200 \<le> t \<and> t \<le> 700 \<longrightarrow>
         (\<exists>p. min_cost_plan id [station (stop_at 1 4) 0, station (stop_at 2 3) 200] t 10 500
                = Inr (Some p, None)
             \<and> stops p \<noteq> [] \<and> s_id (hd (stops p)) = 1 \<and> gallons_bought (hd (stops p)) = 20
             \<and> tank_gallons_capacity p = 50))
   \<and> (monotone_rounding fl \<longrightarrow>
      buy_gal fl (build_nodes stations total_miles) total_miles mpg max_range_miles i fuel_level
        = max 0 (fl (min (fl (max_range_miles / mpg))
                         (required_gallons fl (build_nodes stations total_miles) total_miles mpg
                            max_range_miles i)
                     - fuel_level)))
   \<and> (\<forall>t. monotone_rounding fl \<and> fl 0 = 0 \<and> fl 1 = 1 \<and> fl 20 = 20 \<and> fl 50 = 50
           \<and> fl 200 = 200 \<and> fl 500 = 500 \<and> 200 \<le> t \<and> t \<le> 700 \<longrightarrow>
         (\<exists>p. min_cost_plan fl [station (stop_at 1 4) 0, station (stop_at 2 3) 200] t 10 500
                = Inr (Some p, None)
             \<and> stops p \<noteq> [] \<and> s_id (hd (stops p)) = 1 \<and> gallons_bought (hd (stops p)) = 20
             \<and> tank_gallons_capacity p = 50))"
proof (intro conjI allI impI)
  have m: "monotone_rounding id" by (simp add: monotone_rounding_def)
  from buy_gal_refines [OF m build_nodes_sorted, of stations total_miles total_miles mpg
      max_range_miles i fuel_level]
  show "buy_gal id (build_nodes stations total_miles) total_miles mpg max_range_miles i
          fuel_level
     = max 0 (min (max_range_miles / mpg)
                  (required_gallons id (build_nodes stations total_miles) total_miles mpg
                     max_range_miles i)
              - fuel_level)"
    by simp
next
  fix t :: real
  assume "200 \<le> t \<and> t \<le> 700"
  then show "\<exists>p. min_cost_plan id [station (stop_at 1 4) 0, station (stop_at 2 3) 200] t 10 500
                = Inr (Some p, None)
             \<and> stops p \<noteq> [] \<and> s_id (hd (stops p)) = 1 \<and> gallons_bought (hd (stops p)) = 20
             \<and> tank_gallons_capacity p = 50"
    by (intro cheaper_example) (simp_all add: monotone_rounding_def)
next
  assume "monotone_rounding fl"
  then show "buy_gal fl (build_nodes stations total_miles) total_miles mpg max_range_miles i
               fuel_level
     = max 0 (fl (min (fl (max_range_miles / mpg))
                      (required_gallons fl (build_nodes stations total_miles) total_miles mpg
                         max_range_miles i)
                  - fuel_level))"
    by (rule buy_gal_refines) (rule build_nodes_sorted)
next
  fix t :: real
  assume "monotone_rounding fl \<and> fl 0 = 0 \<and> fl 1 = 1 \<and> fl 20 = 20 \<and> fl 50 = 50
           \<and> fl 200 = 200 \<and> fl 500 = 500 \<and> 200 \<le> t \<and> t \<le> 700"
  then show "\<exists>p. min_cost_plan fl [station (stop_at 1 4) 0, station (stop_at 2 3) 200] t 10 500
                = Inr (Some p, None)
             \<and> stops p \<noteq> [] \<and> s_id (hd (stops p)) = 1 \<and> gallons_bought (hd (stops p)) = 20
             \<and> tank_gallons_capacity p = 50"
    by (intro cheaper_example) simp_all
qed

theorem buy_gal_formula_witness:
  "(\<exists>p. min_cost_plan id [station (stop_at 1 4) 0, station (stop_at 2 3) 200] 600 10 500
          = Inr (Some p, None)
       \<and> s_id (hd (stops p)) = 1 \<and> gallons_bought (hd (stops p)) = 20)
   \<and> (\<exists>p. min_cost_plan binary64 [station (stop_at 1 4) 0, station (stop_at 2 3) 200] 600 10 500
          = Inr (Some p, None)
       \<and> s_id (hd (stops p)) = 1 \<and> gallons_bought (hd (stops p)) = 20
       \<and> tank_gallons_capacity p = 50)"
proof -
  note t = buy_gal_formula [where fl = binary64 and stations = "[]" and total_miles = 0
      and mpg = 1 and max_range_miles = 0 and i = 0 and fuel_level = 0]
  from t have "\<forall>t::real. 200 \<le> t \<and> t \<le> 700 \<longrightarrow>
         (\<exists>p. min_cost_plan id [station (stop_at 1 4) 0, station (stop_at 2 3) 200] t 10 500
                = Inr (Some p, None)
             \<and> stops p \<noteq> [] \<and> s_id (hd (stops p)) = 1 \<and> gallons_bought (hd (stops p)) = 20
             \<and> tank_gallons_capacity p = 50)"
    by (elim conjE)
  from this [rule_format, of 600]
  have 1: "\<exists>p. min_cost_plan id [station (stop_at 1 4) 0, station (stop_at 2 3) 200] 600 10 500
          = Inr (Some p, None)
       \<and> s_id (hd (stops p)) = 1 \<and> gallons_bought (hd (stops p)) = 20"
    by auto
  from t have "\<forall>t::real. monotone_rounding binary64 \<and> binary64 0 = 0 \<and> binary64 1 = 1
           \<and> binary64 20 = 20 \<and> binary64 50 = 50
           \<and> binary64 200 = 200 \<and> binary64 500 = 500 \<and> 200 \<le> t \<and> t \<le> 700 \<longrightarrow>
         (\<exists>p. min_cost_plan binary64 [station (stop_at 1 4) 0, station (stop_at 2 3) 200]
                  t 10 500 = Inr (Some p, None)
             \<and> stops p \<noteq> [] \<and> s_id (hd (stops p)) = 1 \<and> gallons_bought (hd (stops p)) = 20
             \<and> tank_gallons_capacity p = 50)"
    by (elim conjE)
  from this [rule_format, of 600] binary64_rounding(1)
  have 2: "\<exists>p. min_cost_plan binary64 [station (stop_at 1 4) 0, station (stop_at 2 3) 200]
                 600 10 500 = Inr (Some p, None)
       \<and> s_id (hd (stops p)) = 1 \<and> gallons_bought (hd (stops p)) = 20
       \<and> tank_gallons_capacity p = 50"
    by (auto simp: binary64_small_int)
  from 1 2 show ?thesis by (rule conjI)
qed

subsection \<open>Fuel level during the scan\<close>

lemma build_nodes_le_total:
  assumes "i < length (build_nodes stations total_miles)"
  shows "route_miles (build_nodes stations total_miles ! i) \<le> total_miles"
proof (cases "i + 1 < length (build_nodes stations total_miles)")
  case True
  then show ?thesis using build_nodes_scanned by blast
next
  case False
  with assms have "i = length (build_nodes stations total_miles) - 1" by simp
  then show ?thesis using build_nodes_last [of stations total_miles] by simp
qed

lemma build_nodes_floats:
  assumes "\<forall>s\<in>set stations. fl (route_miles s) = route_miles s"
    and "fl total_miles = total_miles"
    and "i < length (build_nodes stations total_miles)"
  shows "fl (route_miles (build_nodes stations total_miles ! i))
           = route_miles (build_nodes stations total_miles ! i)"
proof (cases "i + 1 < length (build_nodes stations total_miles)")
  case True
  then show ?thesis using build_nodes_scanned assms(1) by blast
next
  case False
  with assms(3) have "i = length (build_nodes stations total_miles) - 1" by simp
  then show ?thesis using build_nodes_last [of stations total_miles] assms(2) by simp
qed

lemma gap_nonneg:
  "sorted (map route_miles nodes) \<Longrightarrow> i + 1 < length nodes \<Longrightarrow> 0 \<le> gap nodes i"
  using sorted_nth_mono [of "map route_miles nodes" i "i + 1"] by (simp add: gap_def)

lemma rounding_zero: "unit_roundoff fl u \<Longrightarrow> fl 0 = 0"
  unfolding unit_roundoff_def by (metis abs_le_zero_iff abs_zero diff_zero mult_zero_right)

lemma rounding_pos:
  assumes "unit_roundoff fl u" and "u < 1" and "0 < x"
  shows "0 < fl x"
proof -
  from assms(1) have "\<bar>fl x - x\<bar> \<le> u * \<bar>x\<bar>" by (simp add: unit_roundoff_def)
  with assms(3) have "x - u * x \<le> fl x" by simp
  moreover from assms(2,3) have "u * x < 1 * x" by (intro mult_strict_right_mono)
  ultimately show ?thesis by simp
qed

lemma rounding_error:
  assumes "unit_roundoff fl u" and "\<bar>x\<bar> \<le> c" and "0 \<le> u"
  shows "\<bar>fl x - x\<bar> \<le> u * c"
proof -
  from assms(1) have "\<bar>fl x - x\<bar> \<le> u * \<bar>x\<bar>" by (simp add: unit_roundoff_def)
  also from assms(2,3) have "u * \<bar>x\<bar> \<le> u * c" by (rule mult_left_mono)
  finally show ?thesis .
qed

text \<open>
  What the scan computes on arrival at a node, with \<open>f\<close> the fuel level, \<open>cap\<close> the
  smaller of the tank capacity and the gallons needed, and \<open>b\<close> the burn of the next
  segment: the level after the purchase is \<open>fl (f + max 0 (fl (cap - f)))\<close>, and the level
  after the burn is that minus \<open>b\<close>, rounded. When the level on arrival is within
  \<open>3 u T\<close> of the interval from 0 to \<open>T\<close>, so are the two new levels; the level after
  the purchase is the old level or at most \<open>cap + 3 u T\<close>; and the two roundings move
  the level by at most \<open>2 u T\<close> each.
\<close>

lemma fuel_step_bounds:
  fixes fl :: "real \<Rightarrow> real" and u T cap b f :: real
  assumes mono: "monotone_rounding fl" and idem: "idempotent_rounding fl"
    and ur: "unit_roundoff fl u"
    and u: "0 \<le> u" "u \<le> 1 / 8"
    and b: "0 \<le> b" "b \<le> cap" and cap: "cap \<le> T"
    and f: "- (3 * u * T) \<le> f" "f \<le> T * (1 + 3 * u)" "fl f = f"
  shows "fl (f + max 0 (fl (cap - f))) \<le> T * (1 + 3 * u)"
    and "- (3 * u * T) \<le> fl (fl (f + max 0 (fl (cap - f))) - b)"
    and "fl (fl (f + max 0 (fl (cap - f))) - b) \<le> T * (1 + 3 * u)"
    and "fl (f + max 0 (fl (cap - f))) \<le> max f (cap + 3 * u * T)"
    and "\<bar>fl (f + max 0 (fl (cap - f))) - (f + max 0 (fl (cap - f)))\<bar> \<le> 2 * u * T"
    and "\<bar>fl (fl (f + max 0 (fl (cap - f))) - b) - (fl (f + max 0 (fl (cap - f))) - b)\<bar>
           \<le> 2 * u * T"
proof -
  define g where "g = max 0 (fl (cap - f))"
  define F where "F = fl (f + g)"
  define p where "p = u * T"
  define q where "q = u * p"
  define w where "w = u * q"
  define v where "v = u * w"
  from mono have m: "\<And>x y. x \<le> y \<Longrightarrow> fl x \<le> fl y" by (simp add: monotone_rounding_def)
  from idem have i: "\<And>x. fl (fl x) = fl x" by (simp add: idempotent_rounding_def)
  from ur have z: "fl 0 = 0" by (rule rounding_zero)
  from b cap have T: "0 \<le> T" by simp
  with u have p: "0 \<le> p" "p \<le> T / 8"
    using mult_right_mono [of u "1 / 8" T] by (simp_all add: p_def)
  with u have q: "0 \<le> q" "q \<le> p / 8"
    using mult_right_mono [of u "1 / 8" p] by (simp_all add: q_def)
  with u have w: "0 \<le> w" "w \<le> q / 8"
    using mult_right_mono [of u "1 / 8" q] by (simp_all add: w_def)
  with u have v: "0 \<le> v" "v \<le> w / 8"
    using mult_right_mono [of u "1 / 8" w] by (simp_all add: v_def)
  have f': "- (3 * p) \<le> f" "f \<le> T + 3 * p"
    using f by (simp_all add: p_def algebra_simps)
  have FF: "fl F = F" by (simp add: F_def i)
  have core: "F \<le> T + 3 * p \<and> (0 \<le> F - b \<or> - (2 * p + 4 * q + 3 * w) \<le> F - b)
      \<and> F \<le> max f (cap + 3 * p) \<and> \<bar>F - (f + g)\<bar> \<le> 2 * p"
  proof (cases "0 < fl (cap - f)")
    case False
    have "cap - f \<le> 0"
    proof (rule ccontr)
      assume "\<not> cap - f \<le> 0"
      then have "0 < fl (cap - f)" using rounding_pos [OF ur, of "cap - f"] u by simp
      with False show False by simp
    qed
    moreover from False have "g = 0" by (simp add: g_def max_def)
    moreover from this have "F = f" by (simp add: F_def f)
    ultimately show ?thesis using f' b p by simp
  next
    case True
    define d where "d = cap - f"
    have d: "0 < d"
    proof (rule ccontr)
      assume "\<not> 0 < d"
      then have "fl d \<le> fl 0" by (intro m) simp
      with True z show False by (simp add: d_def)
    qed
    from f' cap have dT: "d \<le> T + 3 * p" by (simp add: d_def)
    define e where "e = fl d - d"
    have "\<bar>e\<bar> \<le> u * (T + 3 * p)"
      unfolding e_def using d dT by (intro rounding_error [OF ur] u) simp
    then have e: "\<bar>e\<bar> \<le> p + 3 * q" by (simp add: p_def q_def algebra_simps)
    from True have gd: "g = fl d" by (simp add: g_def d_def max_def)
    define s where "s = f + g"
    have s: "s = cap + e" by (simp add: s_def gd e_def d_def)
    have Fs: "F = fl s" by (simp add: F_def s_def)
    from b have c0: "0 \<le> cap" by simp
    have "\<bar>F - s\<bar> \<le> u * (cap + \<bar>e\<bar>)"
      unfolding Fs using c0 by (intro rounding_error [OF ur] u) (simp add: s)
    also have "u * (cap + \<bar>e\<bar>) = u * cap + u * \<bar>e\<bar>" by (simp add: algebra_simps)
    finally have Fe: "\<bar>F - s\<bar> \<le> u * cap + u * \<bar>e\<bar>" .
    have "u * cap \<le> u * T" using cap u by (intro mult_left_mono)
    then have uc: "u * cap \<le> p" by (simp add: p_def)
    have "u * \<bar>e\<bar> \<le> u * (p + 3 * q)" using e u by (intro mult_left_mono)
    then have ue: "u * \<bar>e\<bar> \<le> q + 3 * w" by (simp add: q_def w_def algebra_simps)
    from Fe uc ue have Fs': "\<bar>F - s\<bar> \<le> p + q + 3 * w" by linarith
    with s e cap b q w have "F \<le> T + 3 * p" "- (2 * p + 4 * q + 3 * w) \<le> F - b"
      "F \<le> cap + 3 * p"
      by linarith+
    moreover from Fs' q w p have "\<bar>F - (f + g)\<bar> \<le> 2 * p" unfolding s_def by linarith
    ultimately show ?thesis by simp
  qed
  then have up: "F \<le> T + 3 * p" by blast
  then show "fl (f + max 0 (fl (cap - f))) \<le> T * (1 + 3 * u)"
    by (simp add: F_def g_def p_def algebra_simps)
  have "fl (F - b) \<le> fl F" using b by (intro m) simp
  with FF up have "fl (F - b) \<le> T + 3 * p" by simp
  then show "fl (fl (f + max 0 (fl (cap - f))) - b) \<le> T * (1 + 3 * u)"
    by (simp add: F_def g_def p_def algebra_simps)
  have "- (3 * p) \<le> fl (F - b)"
  proof (cases "0 \<le> F - b")
    case True
    then have "fl 0 \<le> fl (F - b)" by (rule m)
    with z p show ?thesis by simp
  next
    case False
    with core have y: "- (2 * p + 4 * q + 3 * w) \<le> F - b" by blast
    with False have "\<bar>F - b\<bar> \<le> 2 * p + 4 * q + 3 * w" by simp
    then have "\<bar>fl (F - b) - (F - b)\<bar> \<le> u * (2 * p + 4 * q + 3 * w)"
      by (intro rounding_error [OF ur] u)
    then have "\<bar>fl (F - b) - (F - b)\<bar> \<le> 2 * q + 4 * w + 3 * v"
      by (simp add: q_def w_def v_def algebra_simps)
    with y q w v show ?thesis by linarith
  qed
  then show "- (3 * u * T) \<le> fl (fl (f + max 0 (fl (cap - f))) - b)"
    by (simp add: F_def g_def p_def algebra_simps)
  from core have "F \<le> max f (cap + 3 * p)" by blast
  then show "fl (f + max 0 (fl (cap - f))) \<le> max f (cap + 3 * u * T)"
    by (simp add: F_def g_def p_def algebra_simps)
  from core have "\<bar>F - (f + g)\<bar> \<le> 2 * p" by blast
  then show "\<bar>fl (f + max 0 (fl (cap - f))) - (f + max 0 (fl (cap - f)))\<bar> \<le> 2 * u * T"
    by (simp add: F_def g_def p_def algebra_simps)
  from core up b p q w have "\<bar>F - b\<bar> \<le> 2 * T" by linarith
  then have "\<bar>fl (F - b) - (F - b)\<bar> \<le> u * (2 * T)"
    by (intro rounding_error [OF ur] u)
  then show "\<bar>fl (fl (f + max 0 (fl (cap - f))) - b) - (fl (f + max 0 (fl (cap - f))) - b)\<bar>
           \<le> 2 * u * T"
    by (simp add: F_def g_def algebra_simps)
qed

text \<open>
  The burn of the segment after node \<open>i\<close> is at most the gallons needed at node \<open>i\<close>
  and at most the tank capacity, as they are computed.
\<close>

lemma target_ge_next:
  assumes mono: "monotone_rounding fl"
    and srt: "sorted (map route_miles nodes)"
    and i: "i + 1 < length nodes"
    and tot: "\<forall>j<length nodes. route_miles (nodes ! j) \<le> t"
    and flt: "\<forall>j<length nodes. fl (route_miles (nodes ! j)) = route_miles (nodes ! j)"
    and g: "gap nodes i \<le> r"
  shows "route_miles (nodes ! (i + 1)) \<le> target_miles fl nodes t r i"
proof (cases "find_cheaper fl nodes (route_miles (nodes ! i)) (price (nodes ! i)) r (i + 1)")
  case None
  moreover from tot i have "route_miles (nodes ! (i + 1)) \<le> t" by simp
  moreover have "route_miles (nodes ! (i + 1)) \<le> fl (route_miles (nodes ! i) + r)"
  proof -
    from g have "route_miles (nodes ! (i + 1)) \<le> route_miles (nodes ! i) + r"
      by (simp add: gap_def)
    with mono have "fl (route_miles (nodes ! (i + 1))) \<le> fl (route_miles (nodes ! i) + r)"
      by (simp add: monotone_rounding_def)
    with flt i show ?thesis by simp
  qed
  ultimately show ?thesis by (simp add: target_miles_def Let_def)
next
  case (Some j)
  from find_cheaper_Some [OF Some] have "i + 1 \<le> j" "j < length nodes" by simp_all
  with srt have "route_miles (nodes ! (i + 1)) \<le> route_miles (nodes ! j)"
    using route_miles_mono [of nodes "i + 1" j] by simp
  with Some show ?thesis by (simp add: target_miles_def Let_def)
qed

lemma burn_bounds:
  assumes mono: "monotone_rounding fl" and z: "fl 0 = 0"
    and m: "0 < m" and r: "fl r = r"
    and srt: "sorted (map route_miles nodes)"
    and i: "i + 1 < length nodes"
    and tot: "\<forall>j<length nodes. route_miles (nodes ! j) \<le> t"
    and flt: "\<forall>j<length nodes. fl (route_miles (nodes ! j)) = route_miles (nodes ! j)"
    and g: "gap nodes i \<le> r"
  shows "0 \<le> fl (computed_gap fl nodes i / m)"
    and "fl (computed_gap fl nodes i / m)
           \<le> min (fl (r / m))
                 (fl (fl (target_miles fl nodes t r i - route_miles (nodes ! i)) / m))"
proof -
  from mono have mo: "\<And>x y. x \<le> y \<Longrightarrow> fl x \<le> fl y" by (simp add: monotone_rounding_def)
  have "fl 0 \<le> computed_gap fl nodes i"
    unfolding computed_gap_def using gap_nonneg [OF srt i] by (intro mo) (simp add: gap_def)
  with z have g0: "0 \<le> computed_gap fl nodes i" by simp
  with m have "fl 0 \<le> fl (computed_gap fl nodes i / m)" by (intro mo) simp
  with z show "0 \<le> fl (computed_gap fl nodes i / m)" by simp
  have "computed_gap fl nodes i \<le> fl r"
    unfolding computed_gap_def using g by (intro mo) (simp add: gap_def)
  with r m have "computed_gap fl nodes i / m \<le> r / m"
    by (simp add: divide_right_mono)
  then have tank: "fl (computed_gap fl nodes i / m) \<le> fl (r / m)" by (rule mo)
  have "computed_gap fl nodes i
      \<le> fl (target_miles fl nodes t r i - route_miles (nodes ! i))"
    unfolding computed_gap_def
    using target_ge_next [OF mono srt i tot flt g] by (intro mo) simp
  with m have "computed_gap fl nodes i / m
      \<le> fl (target_miles fl nodes t r i - route_miles (nodes ! i)) / m"
    by (simp add: divide_right_mono)
  then have "fl (computed_gap fl nodes i / m)
      \<le> fl (fl (target_miles fl nodes t r i - route_miles (nodes ! i)) / m)"
    by (rule mo)
  with tank show "fl (computed_gap fl nodes i / m)
           \<le> min (fl (r / m))
                 (fl (fl (target_miles fl nodes t r i - route_miles (nodes ! i)) / m))"
    by simp
qed

lemma fuel_after_purchase_eq:
  "fuel_after_purchase fl nodes t m r n
     = fl (fuel (scan_prefix fl nodes t m r n)
           + max 0 (fl (min (fl (r / m))
                            (fl (fl (target_miles fl nodes t r n - route_miles (nodes ! n)) / m))
                        - fuel (scan_prefix fl nodes t m r n))))"
  by (simp add: fuel_after_purchase_def bought_at_def buy_gal_def Let_def)

lemma fuel_invariant:
  assumes mono: "monotone_rounding fl" and idem: "idempotent_rounding fl"
    and ur: "unit_roundoff fl u" and u: "0 \<le> u" "u \<le> 1 / 8"
    and m: "0 < m" and r: "fl r = r" "0 \<le> r"
    and srt: "sorted (map route_miles nodes)"
    and tot: "\<forall>j<length nodes. route_miles (nodes ! j) \<le> t"
    and flt: "\<forall>j<length nodes. fl (route_miles (nodes ! j)) = route_miles (nodes ! j)"
    and g: "\<forall>i. i + 1 < length nodes \<longrightarrow> gap nodes i \<le> r"
  shows "n \<le> length nodes - 1 \<Longrightarrow>
     - (3 * u * fl (r / m)) \<le> fuel (scan_prefix fl nodes t m r n)
     \<and> fuel (scan_prefix fl nodes t m r n) \<le> fl (r / m) * (1 + 3 * u)
     \<and> fl (fuel (scan_prefix fl nodes t m r n)) = fuel (scan_prefix fl nodes t m r n)"
proof (induction n)
  case 0
  from ur have z: "fl 0 = 0" by (rule rounding_zero)
  from mono r m have "fl 0 \<le> fl (r / m)" by (simp add: monotone_rounding_def)
  with z have "0 \<le> fl (r / m)" by simp
  with u have "0 \<le> 3 * u * fl (r / m)" "0 \<le> fl (r / m) * (1 + 3 * u)" by simp_all
  with z show ?case by simp
next
  case (Suc n)
  then have n: "n + 1 < length nodes"
    and ih: "- (3 * u * fl (r / m)) \<le> fuel (scan_prefix fl nodes t m r n)"
      "fuel (scan_prefix fl nodes t m r n) \<le> fl (r / m) * (1 + 3 * u)"
      "fl (fuel (scan_prefix fl nodes t m r n)) = fuel (scan_prefix fl nodes t m r n)"
    by simp_all
  from ur have z: "fl 0 = 0" by (rule rounding_zero)
  from g n have gn: "gap nodes n \<le> r" by simp
  note bb = burn_bounds [OF mono z m r(1) srt n tot flt gn]
  from bb(2) have b2: "fl (computed_gap fl nodes n / m)
      \<le> min (fl (r / m))
            (fl (fl (target_miles fl nodes t r n - route_miles (nodes ! n)) / m))" .
  have c: "min (fl (r / m))
            (fl (fl (target_miles fl nodes t r n - route_miles (nodes ! n)) / m)) \<le> fl (r / m)"
    by simp
  from fuel_step_bounds(2,3) [OF mono idem ur u bb(1) b2 c ih]
  have "- (3 * u * fl (r / m)) \<le> fuel (scan_prefix fl nodes t m r (Suc n))"
    "fuel (scan_prefix fl nodes t m r (Suc n)) \<le> fl (r / m) * (1 + 3 * u)"
    unfolding fuel_step fuel_after_purchase_eq by simp_all
  moreover from idem have "fl (fuel (scan_prefix fl nodes t m r (Suc n)))
      = fuel (scan_prefix fl nodes t m r (Suc n))"
    unfolding fuel_step by (simp add: idempotent_rounding_def)
  ultimately show ?case by blast
qed

text \<open>
  Claim C9, amended: let the rounding be monotone and idempotent with unit roundoff
  \<open>u \<le> 1/8\<close> (as binary64 is with \<open>u = 2^-53\<close>), let \<open>mpg > 0\<close>, let the route
  miles of the stations, the route length and the range be floats, and let all
  consecutive gaps of the node list be at most \<open>max_range_miles\<close>. Then in every iteration \<open>n\<close> of the forward scan the fuel level
  after the purchase is at most \<open>(1 + 3 u)\<close> times the tank capacity
  \<open>fl (max_range_miles / mpg)\<close>, and the fuel level after burning the segment to the next
  node is at least \<open>- 3 u\<close> times the tank capacity. In exact arithmetic (\<open>u = 0\<close>) these
  are the bounds of the claim: at most the tank capacity, and not negative. The
  iterations are those of the scan that \<^verbatim>\<open>min_cost_plan\<close> runs.
\<close>

theorem fuel_within_tank:
  assumes "monotone_rounding fl" and "idempotent_rounding fl" and "unit_roundoff fl u"
    and "0 \<le> u" and "u \<le> 1 / 8"
    and "0 < mpg"
    and "fl max_range_miles = max_range_miles" and "fl total_miles = total_miles"
    and "\<forall>s\<in>set stations. fl (route_miles s) = route_miles s"
    and "\<forall>i. i + 1 < length (build_nodes stations total_miles)
           \<longrightarrow> gap (build_nodes stations total_miles) i \<le> max_range_miles"
  shows "(\<forall>n. n + 1 < length (build_nodes stations total_miles) \<longrightarrow>
            fuel_after_purchase fl (build_nodes stations total_miles) total_miles mpg
                max_range_miles n
              \<le> fl (max_range_miles / mpg) * (1 + 3 * u)
          \<and> - (3 * u * fl (max_range_miles / mpg))
              \<le> fuel (scan_prefix fl (build_nodes stations total_miles) total_miles mpg
                         max_range_miles (Suc n)))
       \<and> scan fl (build_nodes stations total_miles) total_miles mpg max_range_miles 0
            \<lparr>fuel = 0, acc_cost = Fin 0, acc_plan = []\<rparr>
          = scan_prefix fl (build_nodes stations total_miles) total_miles mpg max_range_miles
              (length (build_nodes stations total_miles) - 1)"
proof -
  let ?nodes = "build_nodes stations total_miles"
  let ?T = "fl (max_range_miles / mpg)"
  note mono = assms(1) and idem = assms(2) and ur = assms(3) and u = assms(4,5)
    and m = assms(6) and r = assms(7)
  have srt: "sorted (map route_miles ?nodes)" by (rule build_nodes_sorted)
  have tot: "\<forall>j<length ?nodes. route_miles (?nodes ! j) \<le> total_miles"
    using build_nodes_le_total by blast
  have flt: "\<forall>j<length ?nodes. fl (route_miles (?nodes ! j)) = route_miles (?nodes ! j)"
    using build_nodes_floats [OF assms(9,8)] by blast
  from ur have z: "fl 0 = 0" by (rule rounding_zero)
  have "fuel_after_purchase fl ?nodes total_miles mpg max_range_miles n \<le> ?T * (1 + 3 * u)
          \<and> - (3 * u * ?T) \<le> fuel (scan_prefix fl ?nodes total_miles mpg max_range_miles (Suc n))"
    if n: "n + 1 < length ?nodes" for n
  proof -
    from assms(10) n have gn: "gap ?nodes n \<le> max_range_miles" by simp
    with gap_nonneg [OF srt n] have r0: "0 \<le> max_range_miles" by simp
    from n have "n \<le> length ?nodes - 1" by simp
    from fuel_invariant [OF mono idem ur u m r r0 srt tot flt assms(10) this]
    have f: "- (3 * u * ?T) \<le> fuel (scan_prefix fl ?nodes total_miles mpg max_range_miles n)"
      "fuel (scan_prefix fl ?nodes total_miles mpg max_range_miles n) \<le> ?T * (1 + 3 * u)"
      "fl (fuel (scan_prefix fl ?nodes total_miles mpg max_range_miles n))
         = fuel (scan_prefix fl ?nodes total_miles mpg max_range_miles n)"
      by simp_all
    note bb = burn_bounds [OF mono z m r srt n tot flt gn]
    have c: "min ?T (fl (fl (target_miles fl ?nodes total_miles max_range_miles n
                              - route_miles (?nodes ! n)) / mpg)) \<le> ?T"
      by simp
    from fuel_step_bounds(1,2) [OF mono idem ur u bb(1) bb(2) c f] show ?thesis
      unfolding fuel_step fuel_after_purchase_eq by simp
  qed
  then show ?thesis using scan_is_prefix by blast
qed

lemma one_node:
  "build_nodes [station (stop_at 1 3) 0] 100 = [station (stop_at 1 3) 0, terminal 100]"
  by (simp add: build_nodes_eq)

text \<open>
  Two runs of the scan in binary64. Stations at miles 0, 3 and 7 priced 3.00, 4.00 and
  2.50, a route of 14 miles, 6 miles per gallon and a range of 10 miles: the fuel level
  ends at \<open>-2^-52\<close>. Stations at miles 0, 5 and 11 priced 2.50, 4.00 and 3.00, a route
  of 26 miles, 9 miles per gallon and a range of 15 miles: the fuel level after the
  third purchase is one unit in the last place above the tank capacity. The first lemma
  of each run lists the roundings that occur.
\<close>

lemma low_fuel_roundings:
  "binary64 (5 / 3) = 7505999378950827 / 4503599627370496"
  "binary64 (3) = 3"
  "binary64 (7) = 7"
  "binary64 (7 / 6) = 5254199565265579 / 4503599627370496"
  "binary64 (5254199565265579 / 4503599627370496) = 5254199565265579 / 4503599627370496"
  "binary64 (1 / 2) = 1 / 2"
  "binary64 (3002399751580331 / 4503599627370496) = 3002399751580331 / 4503599627370496"
  "binary64 (4) = 4"
  "binary64 (2 / 3) = 6004799503160661 / 9007199254740992"
  "binary64 (- (1 / 9007199254740992)) = - (1 / 9007199254740992)"
  "binary64 (1 / 9007199254740992) = 1 / 9007199254740992"
  "binary64 (17) = 17"
  "binary64 (10508399130531157 / 9007199254740992) = 2627099782632789 / 2251799813685248"
  "binary64 (- (1 / 4503599627370496)) = - (1 / 4503599627370496)"
proof -
  show "binary64 (5 / 3) = 7505999378950827 / 4503599627370496"
    using binary64_eval [of 0 "5 / 3"] by (simp add: round_even_def power_int_minus)
  show "binary64 (3) = 3"
    using binary64_eval [of 1 "3"] by (simp add: round_even_def power_int_minus)
  show "binary64 (7) = 7"
    using binary64_eval [of 2 "7"] by (simp add: round_even_def power_int_minus)
  show "binary64 (7 / 6) = 5254199565265579 / 4503599627370496"
    using binary64_eval [of 0 "7 / 6"] by (simp add: round_even_def power_int_minus)
  show "binary64 (5254199565265579 / 4503599627370496) = 5254199565265579 / 4503599627370496"
    using binary64_eval [of 0 "5254199565265579 / 4503599627370496"] by (simp add: round_even_def power_int_minus)
  show "binary64 (1 / 2) = 1 / 2"
    using binary64_eval [of "- 1" "1 / 2"] by (simp add: round_even_def power_int_minus)
  show "binary64 (3002399751580331 / 4503599627370496) = 3002399751580331 / 4503599627370496"
    using binary64_eval [of "- 1" "3002399751580331 / 4503599627370496"] by (simp add: round_even_def power_int_minus)
  show "binary64 (4) = 4"
    using binary64_eval [of 2 "4"] by (simp add: round_even_def power_int_minus)
  show "binary64 (2 / 3) = 6004799503160661 / 9007199254740992"
    using binary64_eval [of "- 1" "2 / 3"] by (simp add: round_even_def power_int_minus)
  show "binary64 (- (1 / 9007199254740992)) = - (1 / 9007199254740992)"
    using binary64_eval [of "- 53" "- (1 / 9007199254740992)"] by (simp add: round_even_def power_int_minus)
  show "binary64 (1 / 9007199254740992) = 1 / 9007199254740992"
    using binary64_eval [of "- 53" "1 / 9007199254740992"] by (simp add: round_even_def power_int_minus)
  show "binary64 (17) = 17"
    using binary64_eval [of 4 "17"] by (simp add: round_even_def power_int_minus)
  show "binary64 (10508399130531157 / 9007199254740992) = 2627099782632789 / 2251799813685248"
    using binary64_eval [of 0 "10508399130531157 / 9007199254740992"] by (simp add: round_even_def power_int_minus)
  show "binary64 (- (1 / 4503599627370496)) = - (1 / 4503599627370496)"
    using binary64_eval [of "- 52" "- (1 / 4503599627370496)"] by (simp add: round_even_def power_int_minus)
qed

lemma low_fuel_run_nodes:
  "build_nodes [station (stop_at 1 3) 0, station (stop_at 2 4) 3, station (stop_at 3 (5 / 2)) 7] 14
   = [station (stop_at 1 3) 0, station (stop_at 2 4) 3, station (stop_at 3 (5 / 2)) 7, terminal 14]"
  by (simp add: build_nodes_eq)

lemma low_fuel_run:
  "binary64 (10 / 6) = 7505999378950827 / 4503599627370496
   \<and> fuel_after_purchase binary64 (build_nodes [station (stop_at 1 3) 0, station (stop_at 2 4) 3, station (stop_at 3 (5 / 2)) 7] 14) 14 6 10 0 = 5254199565265579 / 4503599627370496
   \<and> fuel (scan_prefix binary64 (build_nodes [station (stop_at 1 3) 0, station (stop_at 2 4) 3, station (stop_at 3 (5 / 2)) 7] 14) 14 6 10 (Suc 0)) = 3002399751580331 / 4503599627370496
   \<and> fuel_after_purchase binary64 (build_nodes [station (stop_at 1 3) 0, station (stop_at 2 4) 3, station (stop_at 3 (5 / 2)) 7] 14) 14 6 10 (Suc 0) = 3002399751580331 / 4503599627370496
   \<and> fuel (scan_prefix binary64 (build_nodes [station (stop_at 1 3) 0, station (stop_at 2 4) 3, station (stop_at 3 (5 / 2)) 7] 14) 14 6 10 (Suc (Suc 0))) = 1 / 9007199254740992
   \<and> fuel_after_purchase binary64 (build_nodes [station (stop_at 1 3) 0, station (stop_at 2 4) 3, station (stop_at 3 (5 / 2)) 7] 14) 14 6 10 (Suc (Suc 0)) = 2627099782632789 / 2251799813685248
   \<and> fuel (scan_prefix binary64 (build_nodes [station (stop_at 1 3) 0, station (stop_at 2 4) 3, station (stop_at 3 (5 / 2)) 7] 14) 14 6 10 (Suc (Suc (Suc 0)))) = - (1 / 4503599627370496)"
proof -
  let ?nodes = "[station (stop_at 1 3) 0, station (stop_at 2 4) 3, station (stop_at 3 (5 / 2)) 7, terminal 14]"
  have lb0: "bought_at binary64 ?nodes 14 6 10 0 = 5254199565265579 / 4503599627370496"
    by (simp add: bought_at_def buy_gal_def target_miles_def find_cheaper.simps Let_def low_fuel_roundings  del: scan_prefix.simps(2))
  have la0: "fuel_after_purchase binary64 ?nodes 14 6 10 0 = 5254199565265579 / 4503599627370496"
    by (simp add: fuel_after_purchase_def lb0 low_fuel_roundings  del: scan_prefix.simps(2))
  have lf1: "fuel (scan_prefix binary64 ?nodes 14 6 10 (Suc 0)) = 3002399751580331 / 4503599627370496"
    unfolding fuel_step la0 by (simp add: computed_gap_def low_fuel_roundings)
  have lb1: "bought_at binary64 ?nodes 14 6 10 (Suc 0) = 0"
    by (simp add: bought_at_def buy_gal_def target_miles_def find_cheaper.simps Let_def low_fuel_roundings lf1 del: scan_prefix.simps(2))
  have la1: "fuel_after_purchase binary64 ?nodes 14 6 10 (Suc 0) = 3002399751580331 / 4503599627370496"
    by (simp add: fuel_after_purchase_def lb1 low_fuel_roundings lf1 del: scan_prefix.simps(2))
  have lf2: "fuel (scan_prefix binary64 ?nodes 14 6 10 (Suc (Suc 0))) = 1 / 9007199254740992"
    unfolding fuel_step la1 by (simp add: computed_gap_def low_fuel_roundings)
  have lb2: "bought_at binary64 ?nodes 14 6 10 (Suc (Suc 0)) = 2627099782632789 / 2251799813685248"
    by (simp add: bought_at_def buy_gal_def target_miles_def find_cheaper.simps Let_def low_fuel_roundings lf2 del: scan_prefix.simps(2))
  have la2: "fuel_after_purchase binary64 ?nodes 14 6 10 (Suc (Suc 0)) = 2627099782632789 / 2251799813685248"
    by (simp add: fuel_after_purchase_def lb2 low_fuel_roundings lf2 del: scan_prefix.simps(2))
  have lf3: "fuel (scan_prefix binary64 ?nodes 14 6 10 (Suc (Suc (Suc 0)))) = - (1 / 4503599627370496)"
    unfolding fuel_step la2 by (simp add: computed_gap_def low_fuel_roundings)
  have tank: "binary64 (10 / 6) = 7505999378950827 / 4503599627370496" by (simp add: low_fuel_roundings)
  show ?thesis unfolding low_fuel_run_nodes using tank la0 lf1 la1 lf2 la2 lf3 by (simp only:)
qed

lemma high_fuel_roundings:
  "binary64 (5 / 3) = 7505999378950827 / 4503599627370496"
  "binary64 (5) = 5"
  "binary64 (11) = 11"
  "binary64 (26) = 26"
  "binary64 (15) = 15"
  "binary64 (7505999378950827 / 4503599627370496) = 7505999378950827 / 4503599627370496"
  "binary64 (5 / 9) = 2501999792983609 / 4503599627370496"
  "binary64 (2501999792983609 / 2251799813685248) = 2501999792983609 / 2251799813685248"
  "binary64 (6) = 6"
  "binary64 (2 / 3) = 6004799503160661 / 9007199254740992"
  "binary64 (- (4003199668773775 / 9007199254740992)) = - (4003199668773775 / 9007199254740992)"
  "binary64 (4003199668773775 / 9007199254740992) = 4003199668773775 / 9007199254740992"
  "binary64 (11008799089127879 / 9007199254740992) = 1376099886140985 / 1125899906842624"
  "binary64 (15011998757901655 / 9007199254740992) = 1876499844737707 / 1125899906842624"
  "binary64 (1 / 4503599627370496) = 1 / 4503599627370496"
proof -
  show "binary64 (5 / 3) = 7505999378950827 / 4503599627370496"
    using binary64_eval [of 0 "5 / 3"] by (simp add: round_even_def power_int_minus)
  show "binary64 (5) = 5"
    using binary64_eval [of 2 "5"] by (simp add: round_even_def power_int_minus)
  show "binary64 (11) = 11"
    using binary64_eval [of 3 "11"] by (simp add: round_even_def power_int_minus)
  show "binary64 (26) = 26"
    using binary64_eval [of 4 "26"] by (simp add: round_even_def power_int_minus)
  show "binary64 (15) = 15"
    using binary64_eval [of 3 "15"] by (simp add: round_even_def power_int_minus)
  show "binary64 (7505999378950827 / 4503599627370496) = 7505999378950827 / 4503599627370496"
    using binary64_eval [of 0 "7505999378950827 / 4503599627370496"] by (simp add: round_even_def power_int_minus)
  show "binary64 (5 / 9) = 2501999792983609 / 4503599627370496"
    using binary64_eval [of "- 1" "5 / 9"] by (simp add: round_even_def power_int_minus)
  show "binary64 (2501999792983609 / 2251799813685248) = 2501999792983609 / 2251799813685248"
    using binary64_eval [of 0 "2501999792983609 / 2251799813685248"] by (simp add: round_even_def power_int_minus)
  show "binary64 (6) = 6"
    using binary64_eval [of 2 "6"] by (simp add: round_even_def power_int_minus)
  show "binary64 (2 / 3) = 6004799503160661 / 9007199254740992"
    using binary64_eval [of "- 1" "2 / 3"] by (simp add: round_even_def power_int_minus)
  show "binary64 (- (4003199668773775 / 9007199254740992)) = - (4003199668773775 / 9007199254740992)"
    using binary64_eval [of "- 2" "- (4003199668773775 / 9007199254740992)"] by (simp add: round_even_def power_int_minus)
  show "binary64 (4003199668773775 / 9007199254740992) = 4003199668773775 / 9007199254740992"
    using binary64_eval [of "- 2" "4003199668773775 / 9007199254740992"] by (simp add: round_even_def power_int_minus)
  show "binary64 (11008799089127879 / 9007199254740992) = 1376099886140985 / 1125899906842624"
    using binary64_eval [of 0 "11008799089127879 / 9007199254740992"] by (simp add: round_even_def power_int_minus)
  show "binary64 (15011998757901655 / 9007199254740992) = 1876499844737707 / 1125899906842624"
    using binary64_eval [of 0 "15011998757901655 / 9007199254740992"] by (simp add: round_even_def power_int_minus)
  show "binary64 (1 / 4503599627370496) = 1 / 4503599627370496"
    using binary64_eval [of "- 52" "1 / 4503599627370496"] by (simp add: round_even_def power_int_minus)
qed

lemma high_fuel_run_nodes:
  "build_nodes [station (stop_at 1 (5 / 2)) 0, station (stop_at 2 4) 5, station (stop_at 3 3) 11] 26
   = [station (stop_at 1 (5 / 2)) 0, station (stop_at 2 4) 5, station (stop_at 3 3) 11, terminal 26]"
  by (simp add: build_nodes_eq)

lemma high_fuel_run:
  "binary64 (15 / 9) = 7505999378950827 / 4503599627370496
   \<and> fuel_after_purchase binary64 (build_nodes [station (stop_at 1 (5 / 2)) 0, station (stop_at 2 4) 5, station (stop_at 3 3) 11] 26) 26 9 15 0 = 7505999378950827 / 4503599627370496
   \<and> fuel (scan_prefix binary64 (build_nodes [station (stop_at 1 (5 / 2)) 0, station (stop_at 2 4) 5, station (stop_at 3 3) 11] 26) 26 9 15 (Suc 0)) = 2501999792983609 / 2251799813685248
   \<and> fuel_after_purchase binary64 (build_nodes [station (stop_at 1 (5 / 2)) 0, station (stop_at 2 4) 5, station (stop_at 3 3) 11] 26) 26 9 15 (Suc 0) = 2501999792983609 / 2251799813685248
   \<and> fuel (scan_prefix binary64 (build_nodes [station (stop_at 1 (5 / 2)) 0, station (stop_at 2 4) 5, station (stop_at 3 3) 11] 26) 26 9 15 (Suc (Suc 0))) = 4003199668773775 / 9007199254740992
   \<and> fuel_after_purchase binary64 (build_nodes [station (stop_at 1 (5 / 2)) 0, station (stop_at 2 4) 5, station (stop_at 3 3) 11] 26) 26 9 15 (Suc (Suc 0)) = 1876499844737707 / 1125899906842624
   \<and> fuel (scan_prefix binary64 (build_nodes [station (stop_at 1 (5 / 2)) 0, station (stop_at 2 4) 5, station (stop_at 3 3) 11] 26) 26 9 15 (Suc (Suc (Suc 0)))) = 1 / 4503599627370496"
proof -
  let ?nodes = "[station (stop_at 1 (5 / 2)) 0, station (stop_at 2 4) 5, station (stop_at 3 3) 11, terminal 26]"
  have hb0: "bought_at binary64 ?nodes 26 9 15 0 = 7505999378950827 / 4503599627370496"
    by (simp add: bought_at_def buy_gal_def target_miles_def find_cheaper.simps Let_def high_fuel_roundings  del: scan_prefix.simps(2))
  have ha0: "fuel_after_purchase binary64 ?nodes 26 9 15 0 = 7505999378950827 / 4503599627370496"
    by (simp add: fuel_after_purchase_def hb0 high_fuel_roundings  del: scan_prefix.simps(2))
  have hf1: "fuel (scan_prefix binary64 ?nodes 26 9 15 (Suc 0)) = 2501999792983609 / 2251799813685248"
    unfolding fuel_step ha0 by (simp add: computed_gap_def high_fuel_roundings)
  have hb1: "bought_at binary64 ?nodes 26 9 15 (Suc 0) = 0"
    by (simp add: bought_at_def buy_gal_def target_miles_def find_cheaper.simps Let_def high_fuel_roundings hf1 del: scan_prefix.simps(2))
  have ha1: "fuel_after_purchase binary64 ?nodes 26 9 15 (Suc 0) = 2501999792983609 / 2251799813685248"
    by (simp add: fuel_after_purchase_def hb1 high_fuel_roundings hf1 del: scan_prefix.simps(2))
  have hf2: "fuel (scan_prefix binary64 ?nodes 26 9 15 (Suc (Suc 0))) = 4003199668773775 / 9007199254740992"
    unfolding fuel_step ha1 by (simp add: computed_gap_def high_fuel_roundings)
  have hb2: "bought_at binary64 ?nodes 26 9 15 (Suc (Suc 0)) = 1376099886140985 / 1125899906842624"
    by (simp add: bought_at_def buy_gal_def target_miles_def find_cheaper.simps Let_def high_fuel_roundings hf2 del: scan_prefix.simps(2))
  have ha2: "fuel_after_purchase binary64 ?nodes 26 9 15 (Suc (Suc 0)) = 1876499844737707 / 1125899906842624"
    by (simp add: fuel_after_purchase_def hb2 high_fuel_roundings hf2 del: scan_prefix.simps(2))
  have hf3: "fuel (scan_prefix binary64 ?nodes 26 9 15 (Suc (Suc (Suc 0)))) = 1 / 4503599627370496"
    unfolding fuel_step ha2 by (simp add: computed_gap_def high_fuel_roundings)
  have tank: "binary64 (15 / 9) = 7505999378950827 / 4503599627370496" by (simp add: high_fuel_roundings)
  show ?thesis unfolding high_fuel_run_nodes using tank ha0 hf1 ha1 hf2 ha2 hf3 by (simp only:)
qed

lemma low_fuel_gaps:
  "\<forall>i. i + 1 < length (build_nodes [station (stop_at 1 3) 0, station (stop_at 2 4) 3, station (stop_at 3 (5 / 2)) 7] 14)
       \<longrightarrow> gap (build_nodes [station (stop_at 1 3) 0, station (stop_at 2 4) 3, station (stop_at 3 (5 / 2)) 7] 14) i \<le> 10"
proof (intro allI impI)
  fix i assume "i + 1 < length (build_nodes [station (stop_at 1 3) 0, station (stop_at 2 4) 3, station (stop_at 3 (5 / 2)) 7] 14)"
  then have "i = 0 \<or> i = 1 \<or> i = 2" by (auto simp: low_fuel_run_nodes)
  then show "gap (build_nodes [station (stop_at 1 3) 0, station (stop_at 2 4) 3, station (stop_at 3 (5 / 2)) 7] 14) i \<le> 10"
    by (auto simp: low_fuel_run_nodes gap_def)
qed

text \<open>
  Two instances of the theorem: in exact arithmetic, one station at mile 0 on a route of
  100 miles; and in binary64, three stations at miles 0, 3 and 7 on a route of 14 miles
  with 6 miles per gallon and a range of 10 miles.
\<close>

theorem fuel_within_tank_witness:
  "fuel_after_purchase id (build_nodes [station (stop_at 1 3) 0] 100) 100 10 500 0 \<le> 50
   \<and> 0 \<le> fuel (scan_prefix id (build_nodes [station (stop_at 1 3) 0] 100) 100 10 500 (Suc 0))
   \<and> bought_at id (build_nodes [station (stop_at 1 3) 0] 100) 100 10 500 0 = 10
   \<and> fuel_after_purchase binary64 (build_nodes [station (stop_at 1 3) 0, station (stop_at 2 4) 3, station (stop_at 3 (5 / 2)) 7] 14) 14 6 10 (Suc (Suc 0))
       \<le> binary64 (10 / 6) * (1 + 3 * (1 / 2 ^ 53))
   \<and> - (3 * (1 / 2 ^ 53) * binary64 (10 / 6))
       \<le> fuel (scan_prefix binary64 (build_nodes [station (stop_at 1 3) 0, station (stop_at 2 4) 3, station (stop_at 3 (5 / 2)) 7] 14) 14 6 10 (Suc (Suc (Suc 0))))"
proof -
  let ?sts = "[station (stop_at 1 3) 0]"
  have h: "monotone_rounding id" "idempotent_rounding id" "unit_roundoff id 0"
    "(0 :: real) \<le> 0" "(0 :: real) \<le> 1 / 8" "(0 :: real) < 10"
    "id (500 :: real) = 500" "id (100 :: real) = 100"
    "\<forall>s\<in>set ?sts. id (route_miles s) = route_miles s"
    by (simp_all add: monotone_rounding_def idempotent_rounding_def unit_roundoff_def)
  have g: "\<forall>i. i + 1 < length (build_nodes ?sts 100) \<longrightarrow> gap (build_nodes ?sts 100) i \<le> 500"
    by (simp add: one_node gap_def)
  have b: "bought_at id (build_nodes ?sts 100) 100 10 500 0 = 10"
    by (simp add: one_node bought_at_def buy_gal_def target_miles_def find_cheaper.simps Let_def)
  have n: "0 + 1 < length (build_nodes ?sts 100)" by (simp add: one_node)
  note t = fuel_within_tank [OF h g]
  from t [THEN conjunct1, rule_format, OF n]
  have 1: "fuel_after_purchase id (build_nodes ?sts 100) 100 10 500 0 \<le> 50"
    "0 \<le> fuel (scan_prefix id (build_nodes ?sts 100) 100 10 500 (Suc 0))"
    by simp_all
  let ?low = "[station (stop_at 1 3) 0, station (stop_at 2 4) 3, station (stop_at 3 (5 / 2)) 7]"
  have h64: "(0 :: real) \<le> 1 / 2 ^ 53" "(1 :: real) / 2 ^ 53 \<le> 1 / 8" "(0 :: real) < 6"
    "binary64 10 = 10" "binary64 14 = 14"
    "\<forall>s\<in>set ?low. binary64 (route_miles s) = route_miles s"
    by (simp_all add: binary64_small_int)
  have n64: "Suc (Suc 0) + 1 < length (build_nodes ?low 14)"
    by (simp add: low_fuel_run_nodes)
  note t64 = fuel_within_tank [OF binary64_rounding h64 low_fuel_gaps]
  note 2 = t64 [THEN conjunct1, rule_format, OF n64]
  from 1 b 2 show ?thesis by (intro conjI) (simp_all only: simp_thms)
qed

lemma small_run_roundings:
  "binary64 (- 50) = - 50"
  "binary64 (1 / 1000000) = 4722366482869645 / 4722366482869645213696"
  "binary64 (100) = 100"
  "binary64 (2361183246157189089717645 / 4722366482869645213696) = 4398046519900093 / 8796093022208"
  "binary64 (500) = 500"
  "binary64 (- 10) = - 10"
  "binary64 (10) = 10"
  "binary64 (50) = 50"
  "binary64 (550) = 550"
  "binary64 (5) = 5"
  "binary64 (15) = 15"
proof -
  show "binary64 (- 50) = - 50"
    using binary64_eval [of 5 "- 50"] by (simp add: round_even_def power_int_minus)
  show "binary64 (1 / 1000000) = 4722366482869645 / 4722366482869645213696"
    using binary64_eval [of "- 20" "1 / 1000000"] by (simp add: round_even_def power_int_minus)
  show "binary64 (100) = 100"
    using binary64_eval [of 6 "100"] by (simp add: round_even_def power_int_minus)
  show "binary64 (2361183246157189089717645 / 4722366482869645213696) = 4398046519900093 / 8796093022208"
    using binary64_eval [of 8 "2361183246157189089717645 / 4722366482869645213696"] by (simp add: round_even_def power_int_minus)
  show "binary64 (500) = 500"
    using binary64_eval [of 8 "500"] by (simp add: round_even_def power_int_minus)
  show "binary64 (- 10) = - 10"
    using binary64_eval [of 3 "- 10"] by (simp add: round_even_def power_int_minus)
  show "binary64 (10) = 10"
    using binary64_eval [of 3 "10"] by (simp add: round_even_def power_int_minus)
  show "binary64 (50) = 50"
    using binary64_eval [of 5 "50"] by (simp add: round_even_def power_int_minus)
  show "binary64 (550) = 550"
    using binary64_eval [of 9 "550"] by (simp add: round_even_def power_int_minus)
  show "binary64 (5) = 5"
    using binary64_eval [of 2 "5"] by (simp add: round_even_def power_int_minus)
  show "binary64 (15) = 15"
    using binary64_eval [of 3 "15"] by (simp add: round_even_def power_int_minus)
qed

text \<open>
  Claim C9, as stated, has no condition on \<open>mpg\<close>, and the request serializer accepts any
  float. With one station at mile 0, a route of 100 miles, a range of 500 and
  \<open>mpg = -10\<close> the only gap is within range and a plan is returned, but the tank capacity
  is \<open>-50\<close> and the fuel level after the purchase at the first node, 0, exceeds it, in
  exact arithmetic and in binary64. And for \<open>mpg > 0\<close> the two bounds fail in binary64 by
  a rounding error: in the first run above all gaps are within the range of 10 miles and
  the fuel level after the last burn is \<open>-2^-52\<close>; in the second all gaps are within
  the range of 15 miles and the fuel level after the third purchase exceeds the tank
  capacity.
\<close>

theorem fuel_bounds_counterexample:
  "gap (build_nodes [station (stop_at 1 3) 0] 100) 0 \<le> 500
   \<and> length (build_nodes [station (stop_at 1 3) 0] 100) = 2
   \<and> 500 / (- 10) < fuel_after_purchase id (build_nodes [station (stop_at 1 3) 0] 100)
                       100 (- 10) 500 0
   \<and> min_cost_plan id [station (stop_at 1 3) 0] 100 (- 10) 500
       = Inr (Some \<lparr>stops = [], total_cost = Fin 0, tank_gallons_capacity = - 50\<rparr>, None)
   \<and> binary64 (500 / (- 10))
       < fuel_after_purchase binary64 (build_nodes [station (stop_at 1 3) 0] 100)
           100 (- 10) 500 0
   \<and> min_cost_plan binary64 [station (stop_at 1 3) 0] 100 (- 10) 500
       = Inr (Some \<lparr>stops = [], total_cost = Fin 0, tank_gallons_capacity = - 50\<rparr>, None)
   \<and> length (build_nodes [station (stop_at 1 3) 0, station (stop_at 2 4) 3, station (stop_at 3 (5 / 2)) 7] 14) = 4
   \<and> gap (build_nodes [station (stop_at 1 3) 0, station (stop_at 2 4) 3, station (stop_at 3 (5 / 2)) 7] 14) 0 \<le> 10
   \<and> gap (build_nodes [station (stop_at 1 3) 0, station (stop_at 2 4) 3, station (stop_at 3 (5 / 2)) 7] 14) 1 \<le> 10
   \<and> gap (build_nodes [station (stop_at 1 3) 0, station (stop_at 2 4) 3, station (stop_at 3 (5 / 2)) 7] 14) 2 \<le> 10
   \<and> fuel (scan binary64 (build_nodes [station (stop_at 1 3) 0, station (stop_at 2 4) 3, station (stop_at 3 (5 / 2)) 7] 14) 14 6 10 0
             \<lparr>fuel = 0, acc_cost = Fin 0, acc_plan = []\<rparr>) = - (1 / 2 ^ 52)
   \<and> length (build_nodes [station (stop_at 1 (5 / 2)) 0, station (stop_at 2 4) 5, station (stop_at 3 3) 11] 26) = 4
   \<and> gap (build_nodes [station (stop_at 1 (5 / 2)) 0, station (stop_at 2 4) 5, station (stop_at 3 3) 11] 26) 0 \<le> 15
   \<and> gap (build_nodes [station (stop_at 1 (5 / 2)) 0, station (stop_at 2 4) 5, station (stop_at 3 3) 11] 26) 1 \<le> 15
   \<and> gap (build_nodes [station (stop_at 1 (5 / 2)) 0, station (stop_at 2 4) 5, station (stop_at 3 3) 11] 26) 2 \<le> 15
   \<and> binary64 (15 / 9)
       < fuel_after_purchase binary64 (build_nodes [station (stop_at 1 (5 / 2)) 0, station (stop_at 2 4) 5, station (stop_at 3 3) 11] 26) 26 9 15 (Suc (Suc 0))"
proof -
  have neg: "gap (build_nodes [station (stop_at 1 3) 0] 100) 0 \<le> 500
   \<and> length (build_nodes [station (stop_at 1 3) 0] 100) = 2
   \<and> 500 / (- 10) < fuel_after_purchase id (build_nodes [station (stop_at 1 3) 0] 100)
                       100 (- 10) 500 0
   \<and> min_cost_plan id [station (stop_at 1 3) 0] 100 (- 10) 500
       = Inr (Some \<lparr>stops = [], total_cost = Fin 0, tank_gallons_capacity = - 50\<rparr>, None)"
    by (simp add: one_node gap_def fuel_after_purchase_def bought_at_def plan_eval py_round_def)
  have neg64: "binary64 (500 / (- 10))
       < fuel_after_purchase binary64 (build_nodes [station (stop_at 1 3) 0] 100)
           100 (- 10) 500 0
   \<and> min_cost_plan binary64 [station (stop_at 1 3) 0] 100 (- 10) 500
       = Inr (Some \<lparr>stops = [], total_cost = Fin 0, tank_gallons_capacity = - 50\<rparr>, None)"
    by (simp add: one_node fuel_after_purchase_def bought_at_def plan_eval py_round_def
        small_run_roundings)
  have low: "length (build_nodes [station (stop_at 1 3) 0, station (stop_at 2 4) 3, station (stop_at 3 (5 / 2)) 7] 14) = 4
   \<and> gap (build_nodes [station (stop_at 1 3) 0, station (stop_at 2 4) 3, station (stop_at 3 (5 / 2)) 7] 14) 0 \<le> 10
   \<and> gap (build_nodes [station (stop_at 1 3) 0, station (stop_at 2 4) 3, station (stop_at 3 (5 / 2)) 7] 14) 1 \<le> 10
   \<and> gap (build_nodes [station (stop_at 1 3) 0, station (stop_at 2 4) 3, station (stop_at 3 (5 / 2)) 7] 14) 2 \<le> 10"
    by (simp add: low_fuel_run_nodes gap_def)
  have "length (build_nodes [station (stop_at 1 3) 0, station (stop_at 2 4) 3, station (stop_at 3 (5 / 2)) 7] 14) - 1 = Suc (Suc (Suc 0))"
    by (simp add: low_fuel_run_nodes)
  with low_fuel_run
  have low_end: "fuel (scan binary64 (build_nodes [station (stop_at 1 3) 0, station (stop_at 2 4) 3, station (stop_at 3 (5 / 2)) 7] 14) 14 6 10 0
             \<lparr>fuel = 0, acc_cost = Fin 0, acc_plan = []\<rparr>) = - (1 / 2 ^ 52)"
    unfolding scan_is_prefix by simp
  have high: "length (build_nodes [station (stop_at 1 (5 / 2)) 0, station (stop_at 2 4) 5, station (stop_at 3 3) 11] 26) = 4
   \<and> gap (build_nodes [station (stop_at 1 (5 / 2)) 0, station (stop_at 2 4) 5, station (stop_at 3 3) 11] 26) 0 \<le> 15
   \<and> gap (build_nodes [station (stop_at 1 (5 / 2)) 0, station (stop_at 2 4) 5, station (stop_at 3 3) 11] 26) 1 \<le> 15
   \<and> gap (build_nodes [station (stop_at 1 (5 / 2)) 0, station (stop_at 2 4) 5, station (stop_at 3 3) 11] 26) 2 \<le> 15"
    by (simp add: high_fuel_run_nodes gap_def)
  from high_fuel_run
  have high_over: "binary64 (15 / 9)
       < fuel_after_purchase binary64 (build_nodes [station (stop_at 1 (5 / 2)) 0, station (stop_at 2 4) 5, station (stop_at 3 3) 11] 26) 26 9 15 (Suc (Suc 0))"
    by simp
  from neg neg64 low low_end high high_over show ?thesis by (simp only: simp_thms)
qed

subsection \<open>Uniform prices\<close>

lemma find_cheaper_None:
  "\<forall>j<length nodes. \<not> fless (price (nodes ! j)) hp \<Longrightarrow>
   find_cheaper fl nodes hm hp r k = None"
proof (induction fl nodes hm hp r k rule: find_cheaper.induct)
  case (1 fl nodes hm hp r k)
  show ?case
  proof (cases "k < length nodes")
    case False
    then show ?thesis by (simp add: find_cheaper.simps [of fl nodes hm hp r k])
  next
    case True
    with "1.prems" have nc: "\<not> fless (price (nodes ! k)) hp" by simp
    show ?thesis
    proof (cases "fl (route_miles (nodes ! k) - hm) > r")
      case far: True
      with True show ?thesis by (simp add: find_cheaper.simps [of fl nodes hm hp r k])
    next
      case False
      with "1.IH" [OF True False nc "1.prems"] True nc show ?thesis
        by (simp add: find_cheaper.simps [of fl nodes hm hp r k])
    qed
  qed
qed

text \<open>Rounding to \<open>nd\<close> decimals moves a number by at most half a unit of the last place.\<close>

lemma py_round_error: "\<bar>py_round x nd - x\<bar> \<le> 1 / (2 * 10 ^ nd)"
proof -
  define y where "y = x * 10 ^ nd"
  define f where "f = \<lfloor>y\<rfloor>"
  define d where "d = y - of_int f"
  define q :: int where "q = (if d < 1 / 2 then f else if 1 / 2 < d then f + 1
                              else if even f then f else f + 1)"
  have d: "0 \<le> d" "d < 1" by (simp_all add: d_def f_def) linarith+
  have q: "\<bar>of_int q - y\<bar> \<le> 1 / 2"
    using d by (auto simp: q_def d_def abs_if)
  have pw: "(0 :: real) < 10 ^ nd" by simp
  have "py_round x nd = of_int q / 10 ^ nd"
    by (simp add: py_round_def Let_def q_def d_def f_def y_def)
  moreover have "x = y / 10 ^ nd" by (simp add: y_def)
  ultimately have "py_round x nd - x = (of_int q - y) / 10 ^ nd"
    by (simp add: diff_divide_distrib)
  then have "\<bar>py_round x nd - x\<bar> = \<bar>of_int q - y\<bar> / 10 ^ nd"
    by (simp add: abs_divide)
  also have "\<dots> \<le> (1 / 2) / 10 ^ nd"
    using q by (intro divide_right_mono) simp_all
  finally show ?thesis by simp
qed

lemma py_round_near:
  assumes "\<bar>a - of_int k / 10 ^ nd\<bar> < 1 / (2 * 10 ^ nd)"
  shows "py_round a nd = of_int k / 10 ^ nd"
proof -
  define y where "y = a * 10 ^ nd"
  have pw: "(0 :: real) < 10 ^ nd" by simp
  have "a - of_int k / 10 ^ nd = (y - of_int k) / 10 ^ nd"
    by (simp add: y_def diff_divide_distrib)
  then have "\<bar>a - of_int k / 10 ^ nd\<bar> = \<bar>y - of_int k\<bar> / 10 ^ nd"
    by (simp add: abs_divide)
  with assms have "\<bar>y - of_int k\<bar> / 10 ^ nd < 1 / (2 * 10 ^ nd)" by simp
  with pw have "\<bar>y - of_int k\<bar> / 10 ^ nd * 10 ^ nd < 1 / (2 * 10 ^ nd) * 10 ^ nd"
    by (intro mult_strict_right_mono)
  then have yk: "\<bar>y - of_int k\<bar> < 1 / 2" by simp
  have sel: "(if y - of_int \<lfloor>y\<rfloor> < 1 / 2 then \<lfloor>y\<rfloor>
         else if 1 / 2 < y - of_int \<lfloor>y\<rfloor> then \<lfloor>y\<rfloor> + 1
         else if even \<lfloor>y\<rfloor> then \<lfloor>y\<rfloor> else \<lfloor>y\<rfloor> + 1) = k"
  proof (cases "of_int k \<le> y")
    case True
    with yk have "\<lfloor>y\<rfloor> = k" by (intro floor_unique) linarith+
    with yk True show ?thesis by simp
  next
    case False
    with yk have f: "\<lfloor>y\<rfloor> = k - 1" by (intro floor_unique) (simp, linarith)+
    with yk False show ?thesis by simp
  qed
  show ?thesis unfolding py_round_def Let_def y_def [symmetric] sel by (rule refl)
qed

lemma rounding_nonneg:
  assumes "unit_roundoff fl u" and "0 \<le> x"
  shows "fl x \<le> x + u * x" and "x - u * x \<le> fl x"
proof -
  from assms(1) have "\<bar>fl x - x\<bar> \<le> u * \<bar>x\<bar>" by (simp add: unit_roundoff_def)
  with assms(2) show "fl x \<le> x + u * x" "x - u * x \<le> fl x" by simp_all
qed

text \<open>The burn of a segment, as computed, is within \<open>3 u\<close> of the exact one.\<close>

lemma burn_error:
  assumes mono: "monotone_rounding fl" and ur: "unit_roundoff fl u"
    and u: "0 \<le> u" "u \<le> 1"
    and m: "0 < m"
    and srt: "sorted (map route_miles nodes)"
    and i: "i + 1 < length nodes"
  shows "\<bar>fl (computed_gap fl nodes i / m) - gap nodes i / m\<bar> \<le> 3 * u * (gap nodes i / m)"
proof -
  define G where "G = gap nodes i"
  define g where "g = fl G"
  define h where "h = G / m"
  define y where "y = g / m"
  have cg: "computed_gap fl nodes i = g" by (simp add: computed_gap_def g_def G_def gap_def)
  from gap_nonneg [OF srt i] have G: "0 \<le> G" by (simp add: G_def)
  with m have h: "0 \<le> h" by (simp add: h_def)
  from rounding_nonneg [OF ur G] have gG: "g \<le> G + u * G" "G - u * G \<le> g"
    by (simp_all add: g_def)
  from u G have "u * G \<le> 1 * G" by (intro mult_right_mono)
  with gG(2) have g0: "0 \<le> g" by simp
  with m have y0: "0 \<le> y" by (simp add: y_def)
  from gG m have "g / m \<le> (G + u * G) / m" "(G - u * G) / m \<le> g / m"
    by (simp_all add: divide_right_mono)
  then have yh: "y \<le> h + u * h" "h - u * h \<le> y"
    by (simp_all add: y_def h_def add_divide_distrib diff_divide_distrib)
  from rounding_nonneg [OF ur y0] have fy: "fl y \<le> y + u * y" "y - u * y \<le> fl y" .
  have "u * y \<le> u * (h + u * h)" using yh(1) u by (intro mult_left_mono)
  moreover have "u * (u * h) \<le> 1 * (u * h)" using u h by (intro mult_right_mono) simp_all
  ultimately have uy: "u * y \<le> 2 * (u * h)" by (simp add: algebra_simps)
  from fy yh uy have "\<bar>fl y - h\<bar> \<le> 3 * (u * h)" by linarith
  then show ?thesis by (simp add: cg y_def h_def G_def algebra_simps)
qed

text \<open>
  One iteration of the scan, up to rounding: the new fuel level is at most the larger
  of the old level and the gallons needed, minus the burn; and the purchase is the
  change of the fuel level plus the burn.
\<close>

lemma scan_step_errors:
  assumes mono: "monotone_rounding fl" and idem: "idempotent_rounding fl"
    and ur: "unit_roundoff fl u" and u: "0 \<le> u" "u \<le> 1 / 8"
    and m: "0 < m" and r: "fl r = r" "0 \<le> r"
    and srt: "sorted (map route_miles nodes)"
    and tot: "\<forall>j<length nodes. route_miles (nodes ! j) \<le> t"
    and flt: "\<forall>j<length nodes. fl (route_miles (nodes ! j)) = route_miles (nodes ! j)"
    and g: "\<forall>i. i + 1 < length nodes \<longrightarrow> gap nodes i \<le> r"
    and n: "n + 1 < length nodes"
  shows "fuel (scan_prefix fl nodes t m r (Suc n))
           \<le> max (fuel (scan_prefix fl nodes t m r n))
                 (fl (fl (target_miles fl nodes t r n - route_miles (nodes ! n)) / m)
                  + 3 * u * fl (r / m))
              - gap nodes n / m + 3 * u * (gap nodes n / m) + 2 * u * fl (r / m)"
    and "\<bar>bought_at fl nodes t m r n
           - (fuel (scan_prefix fl nodes t m r (Suc n)) - fuel (scan_prefix fl nodes t m r n))
           - gap nodes n / m\<bar>
         \<le> 4 * u * fl (r / m) + 3 * u * (gap nodes n / m)"
proof -
  define T where "T = fl (r / m)"
  define need where
    "need = fl (fl (target_miles fl nodes t r n - route_miles (nodes ! n)) / m)"
  define cap where "cap = min T need"
  define f where "f = fuel (scan_prefix fl nodes t m r n)"
  define b where "b = fl (computed_gap fl nodes n / m)"
  define F where "F = fl (f + max 0 (fl (cap - f)))"
  define f' where "f' = fl (F - b)"
  define h where "h = gap nodes n / m"
  from ur have z: "fl 0 = 0" by (rule rounding_zero)
  from g n have gn: "gap nodes n \<le> r" by simp
  from n have "n \<le> length nodes - 1" by simp
  from fuel_invariant [OF mono idem ur u m r srt tot flt g this]
  have inv: "- (3 * u * T) \<le> f" "f \<le> T * (1 + 3 * u)" "fl f = f"
    by (simp_all add: T_def f_def)
  from burn_bounds [OF mono z m r(1) srt n tot flt gn]
  have b: "0 \<le> b" "b \<le> cap" by (simp_all add: b_def cap_def T_def need_def)
  have c: "cap \<le> T" by (simp add: cap_def)
  note sb = fuel_step_bounds [OF mono idem ur u b c inv]
  from sb(4) have F1: "F \<le> max f (cap + 3 * u * T)" by (simp add: F_def)
  from sb(5) have F2: "\<bar>F - (f + max 0 (fl (cap - f)))\<bar> \<le> 2 * u * T" by (simp add: F_def)
  from sb(6) have F3: "\<bar>f' - (F - b)\<bar> \<le> 2 * u * T" by (simp add: f'_def F_def)
  from u have u1: "u \<le> 1" by simp
  from burn_error [OF mono ur u(1) u1 m srt n]
  have be: "\<bar>b - h\<bar> \<le> 3 * u * h" by (simp add: b_def h_def)
  have bought: "bought_at fl nodes t m r n = max 0 (fl (cap - f))"
    by (simp add: bought_at_def buy_gal_def Let_def cap_def T_def need_def f_def)
  have next_fuel: "fuel (scan_prefix fl nodes t m r (Suc n)) = f'"
    unfolding fuel_step fuel_after_purchase_eq
    by (simp add: f'_def F_def cap_def T_def need_def f_def b_def)
  have "cap \<le> need" by (simp add: cap_def)
  then have "max f (cap + 3 * u * T) \<le> max f (need + 3 * u * T)" by simp
  with F1 F3 be have "f' \<le> max f (need + 3 * u * T) - h + 3 * u * h + 2 * u * T"
    by linarith
  then show "fuel (scan_prefix fl nodes t m r (Suc n))
           \<le> max (fuel (scan_prefix fl nodes t m r n))
                 (fl (fl (target_miles fl nodes t r n - route_miles (nodes ! n)) / m)
                  + 3 * u * fl (r / m))
              - gap nodes n / m + 3 * u * (gap nodes n / m) + 2 * u * fl (r / m)"
    unfolding next_fuel by (simp add: f_def need_def T_def h_def)
  from F2 F3 be have "\<bar>max 0 (fl (cap - f)) - (f' - f) - h\<bar> \<le> 4 * u * T + 3 * u * h"
    by linarith
  then show "\<bar>bought_at fl nodes t m r n
           - (fuel (scan_prefix fl nodes t m r (Suc n)) - fuel (scan_prefix fl nodes t m r n))
           - gap nodes n / m\<bar>
         \<le> 4 * u * fl (r / m) + 3 * u * (gap nodes n / m)"
    unfolding next_fuel bought by (simp add: f_def T_def h_def)
qed

text \<open>
  The gallons bought in the first \<open>n\<close> iterations are the fuel level after them plus
  the gallons burnt on the way, up to rounding.
\<close>

lemma gallons_telescope:
  assumes mono: "monotone_rounding fl" and idem: "idempotent_rounding fl"
    and ur: "unit_roundoff fl u" and u: "0 \<le> u" "u \<le> 1 / 8"
    and m: "0 < m" and r: "fl r = r" "0 \<le> r"
    and srt: "sorted (map route_miles nodes)"
    and tot: "\<forall>j<length nodes. route_miles (nodes ! j) \<le> t"
    and flt: "\<forall>j<length nodes. fl (route_miles (nodes ! j)) = route_miles (nodes ! j)"
    and g: "\<forall>i. i + 1 < length nodes \<longrightarrow> gap nodes i \<le> r"
  shows "n \<le> length nodes - 1 \<Longrightarrow>
     \<bar>(\<Sum>k<n. bought_at fl nodes t m r k) - fuel (scan_prefix fl nodes t m r n)
        - (route_miles (nodes ! n) - route_miles (nodes ! 0)) / m\<bar>
     \<le> 4 * real n * (u * fl (r / m))
       + 3 * u * ((route_miles (nodes ! n) - route_miles (nodes ! 0)) / m)"
proof (induction n)
  case 0
  show ?case by simp
next
  case (Suc n)
  then have n: "n + 1 < length nodes" by simp
  define S where "S = (\<Sum>k<n. bought_at fl nodes t m r k)"
  define f where "f = fuel (scan_prefix fl nodes t m r n)"
  define f' where "f' = fuel (scan_prefix fl nodes t m r (Suc n))"
  define x where "x = (route_miles (nodes ! n) - route_miles (nodes ! 0)) / m"
  define h where "h = gap nodes n / m"
  define p where "p = u * fl (r / m)"
  define bt where "bt = bought_at fl nodes t m r n"
  from Suc have ih: "\<bar>S - f - x\<bar> \<le> 4 * real n * p + 3 * u * x"
    by (simp add: S_def f_def x_def p_def)
  from scan_step_errors(2) [OF mono idem ur u m r srt tot flt g n]
  have st: "\<bar>bt - (f' - f) - h\<bar> \<le> 4 * p + 3 * u * h"
    by (simp add: bt_def f'_def f_def h_def p_def)
  have x': "(route_miles (nodes ! Suc n) - route_miles (nodes ! 0)) / m = x + h"
    by (simp add: x_def h_def gap_def diff_divide_distrib)
  have "\<bar>(S + bt) - f' - (x + h)\<bar> \<le> 4 * real n * p + 3 * u * x + (4 * p + 3 * u * h)"
    using ih st by linarith
  also have "\<dots> = 4 * real (Suc n) * p + 3 * u * (x + h)"
    by (simp add: algebra_simps)
  finally show ?case
    unfolding x' by (simp add: S_def bt_def f'_def p_def)
qed

text \<open>
  When no node is cheaper than node \<open>i\<close>, the gallons needed at node \<open>i\<close> are at most
  the gallons to the end of the route, up to rounding.
\<close>

lemma uniform_need:
  assumes mono: "monotone_rounding fl" and ur: "unit_roundoff fl u"
    and u: "0 \<le> u" "u \<le> 1"
    and m: "0 < m"
    and nc: "\<forall>j<length nodes. \<not> fless (price (nodes ! j)) (price (nodes ! i))"
    and x: "0 \<le> route_miles (nodes ! i)" "route_miles (nodes ! i) \<le> t"
  shows "fl (fl (target_miles fl nodes t r i - route_miles (nodes ! i)) / m)
           \<le> (t - route_miles (nodes ! i)) / m + 3 * u * (t / m)"
proof -
  define here where "here = route_miles (nodes ! i)"
  define W where "W = t - here"
  define h where "h = W / m"
  from mono have mo: "\<And>x y. x \<le> y \<Longrightarrow> fl x \<le> fl y" by (simp add: monotone_rounding_def)
  from ur have z: "fl 0 = 0" by (rule rounding_zero)
  from x have W: "0 \<le> W" by (simp add: W_def here_def)
  with m have h: "0 \<le> h" by (simp add: h_def)
  from x m have ht: "h \<le> t / m" by (simp add: h_def W_def here_def divide_right_mono)
  have tgt: "target_miles fl nodes t r i = min t (fl (here + r))"
    by (simp add: target_miles_def Let_def find_cheaper_None [OF nc] here_def)
  have "fl (target_miles fl nodes t r i - here) \<le> fl W"
    unfolding tgt W_def by (intro mo) simp
  with m have "fl (target_miles fl nodes t r i - here) / m \<le> fl W / m"
    by (simp add: divide_right_mono)
  then have 1: "fl (fl (target_miles fl nodes t r i - here) / m) \<le> fl (fl W / m)"
    by (rule mo)
  from W have "fl 0 \<le> fl W" by (rule mo)
  with z have fW: "0 \<le> fl W" by simp
  with m have y0: "0 \<le> fl W / m" by simp
  from rounding_nonneg(1) [OF ur W] m have "fl W / m \<le> (W + u * W) / m"
    by (simp add: divide_right_mono)
  then have y: "fl W / m \<le> h + u * h"
    by (simp add: h_def add_divide_distrib)
  from rounding_nonneg(1) [OF ur y0] have 2: "fl (fl W / m) \<le> fl W / m + u * (fl W / m)" .
  have "u * (fl W / m) \<le> u * (h + u * h)" using y u by (intro mult_left_mono)
  moreover have "u * (u * h) \<le> 1 * (u * h)" using u h by (intro mult_right_mono) simp_all
  ultimately have 3: "u * (fl W / m) \<le> 2 * (u * h)" by (simp add: algebra_simps)
  have "u * h \<le> u * (t / m)" using ht u by (intro mult_left_mono)
  with 1 2 3 y have "fl (fl (target_miles fl nodes t r i - here) / m) \<le> h + 3 * (u * (t / m))"
    by linarith
  then show ?thesis by (simp add: h_def W_def here_def)
qed

text \<open>
  With uniform prices the fuel level on arrival at node \<open>n\<close> is at most the gallons to
  the end of the route, up to rounding.
\<close>

lemma fuel_upper:
  assumes mono: "monotone_rounding fl" and idem: "idempotent_rounding fl"
    and ur: "unit_roundoff fl u" and u: "0 \<le> u" "u \<le> 1 / 8"
    and m: "0 < m" and r: "fl r = r" "0 \<le> r"
    and srt: "sorted (map route_miles nodes)"
    and tot: "\<forall>j<length nodes. route_miles (nodes ! j) \<le> t"
    and flt: "\<forall>j<length nodes. fl (route_miles (nodes ! j)) = route_miles (nodes ! j)"
    and g: "\<forall>i. i + 1 < length nodes \<longrightarrow> gap nodes i \<le> r"
    and nc: "\<forall>i j. i + 1 < length nodes \<and> j < length nodes
               \<longrightarrow> \<not> fless (price (nodes ! j)) (price (nodes ! i))"
    and pos: "\<forall>j<length nodes. 0 \<le> route_miles (nodes ! j)"
    and ne: "0 < length nodes"
  shows "n \<le> length nodes - 1 \<Longrightarrow>
     fuel (scan_prefix fl nodes t m r n)
       \<le> (t - route_miles (nodes ! n)) / m + 3 * u * (t / m) + 3 * u * fl (r / m)
          + 3 * u * (route_miles (nodes ! n) / m) + 2 * real n * (u * fl (r / m))"
proof (induction n)
  case 0
  from ur have z: "fl 0 = 0" by (rule rounding_zero)
  from mono r m have "fl 0 \<le> fl (r / m)" by (simp add: monotone_rounding_def)
  with z u have "0 \<le> 3 * u * fl (r / m)" by simp
  moreover from tot pos ne have x0: "0 \<le> route_miles (nodes ! 0)" "route_miles (nodes ! 0) \<le> t"
    by simp_all
  then have "0 \<le> t" by simp
  with m u have "0 \<le> 3 * u * (t / m)" by simp
  moreover from x0 m have "0 \<le> (t - route_miles (nodes ! 0)) / m" by simp
  moreover from x0 m u have "0 \<le> 3 * u * (route_miles (nodes ! 0) / m)" by simp
  ultimately show ?case by simp
next
  case (Suc n)
  then have n: "n + 1 < length nodes" by simp
  define T where "T = fl (r / m)"
  define p where "p = u * T"
  define f where "f = fuel (scan_prefix fl nodes t m r n)"
  define f' where "f' = fuel (scan_prefix fl nodes t m r (Suc n))"
  define need where
    "need = fl (fl (target_miles fl nodes t r n - route_miles (nodes ! n)) / m)"
  define w where "w = (t - route_miles (nodes ! n)) / m"
  define w' where "w' = (t - route_miles (nodes ! Suc n)) / m"
  define h where "h = gap nodes n / m"
  define a where "a = route_miles (nodes ! n) / m"
  define c where "c = u * (t / m)"
  from ur have z: "fl 0 = 0" by (rule rounding_zero)
  from mono r m have "fl 0 \<le> fl (r / m)" by (simp add: monotone_rounding_def)
  with z u have p: "0 \<le> p" by (simp add: p_def T_def)
  from Suc have ih: "f \<le> w + 3 * c + 3 * p + 3 * (u * a) + 2 * real n * p"
    by (simp add: f_def w_def T_def p_def a_def c_def algebra_simps)
  from pos tot n have xn: "0 \<le> route_miles (nodes ! n)" "route_miles (nodes ! n) \<le> t"
    by simp_all
  with m u have ua: "0 \<le> u * a" by (simp add: a_def)
  from nc n have nc': "\<forall>j<length nodes. \<not> fless (price (nodes ! j)) (price (nodes ! n))"
    by blast
  from u have u1: "u \<le> 1" by simp
  from uniform_need [OF mono ur u(1) u1 m nc' xn, of r]
  have need: "need \<le> w + 3 * c" by (simp add: need_def w_def c_def)
  from scan_step_errors(1) [OF mono idem ur u m r srt tot flt g n]
  have st: "f' \<le> max f (need + 3 * p) - h + 3 * (u * h) + 2 * p"
    by (simp add: f'_def f_def need_def T_def p_def h_def algebra_simps)
  have wh: "w - h = w'"
    by (simp add: w_def w'_def h_def gap_def diff_divide_distrib)
  have ah: "route_miles (nodes ! Suc n) / m = a + h"
    by (simp add: a_def h_def gap_def add_divide_distrib diff_divide_distrib)
  define k where "k = real n * p"
  from p have k: "0 \<le> k" by (simp add: k_def)
  from ih have ih': "f \<le> w + 3 * c + 3 * p + 3 * (u * a) + 2 * k" by (simp add: k_def)
  from ih' need ua k
  have "max f (need + 3 * p) \<le> w + 3 * c + 3 * p + 3 * (u * a) + 2 * k"
    by linarith
  with st wh have "f' \<le> w' + 3 * c + 3 * p + 3 * (u * a) + 3 * (u * h) + 2 * k + 2 * p"
    by linarith
  also have "\<dots> = w' + 3 * c + 3 * p + 3 * (u * (a + h)) + 2 * real (Suc n) * p"
    by (simp add: k_def algebra_simps)
  finally show ?case
    unfolding ah [symmetric]
    by (simp add: f'_def w'_def c_def p_def T_def algebra_simps)
qed

text \<open>
  The running total is \<open>c\<close> times the gallons bought so far, up to one rounding for each
  product and each addition, when every scanned node has the price \<open>c\<close>.
\<close>

lemma bought_at_nonneg: "0 \<le> bought_at fl nodes t m r k"
  by (simp add: bought_at_def buy_gal_def Let_def)

lemma cost_accumulates:
  assumes ur: "unit_roundoff fl u" and u: "0 \<le> u" "u \<le> 1" and c: "0 \<le> c"
    and pr: "\<forall>k<n. price (nodes ! k) = Fin c"
  shows "\<exists>a. acc_cost (scan_prefix fl nodes t m r n) = Fin a
     \<and> c * (1 - u) ^ (n + 1) * (\<Sum>k<n. bought_at fl nodes t m r k) \<le> a
     \<and> a \<le> c * (1 + u) ^ (n + 1) * (\<Sum>k<n. bought_at fl nodes t m r k)"
  using pr
proof (induction n)
  case 0
  show ?case by simp
next
  case (Suc n)
  define G where "G = (\<Sum>k<n. bought_at fl nodes t m r k)"
  define bt where "bt = bought_at fl nodes t m r n"
  define P where "P = (1 + u) ^ (n + 1)"
  define Q where "Q = (1 - u) ^ (n + 1)"
  from Suc obtain a where a: "acc_cost (scan_prefix fl nodes t m r n) = Fin a"
    "c * Q * G \<le> a" "a \<le> c * P * G"
    by (auto simp: G_def P_def Q_def)
  from Suc.prems have pn: "price (nodes ! n) = Fin c" by simp
  have bt: "0 \<le> bt" by (simp add: bt_def bought_at_nonneg)
  have G: "0 \<le> G" unfolding G_def by (intro sum_nonneg) (simp add: bought_at_nonneg)
  from u have Q: "0 \<le> Q" "Q \<le> 1 - u"
    using power_le_one [of "1 - u" n] mult_left_mono [of "(1 - u) ^ n" 1 "1 - u"]
    by (simp_all add: Q_def)
  from u have P: "1 + u \<le> P"
    using one_le_power [of "1 + u" n] mult_left_mono [of 1 "(1 + u) ^ n" "1 + u"]
    by (simp add: P_def)
  from c Q G have a0: "0 \<le> a" using a(2) by (meson mult_nonneg_nonneg order_trans)
  define y where "y = bt * c"
  from bt c have y0: "0 \<le> y" by (simp add: y_def)
  define z where "z = fl y"
  from rounding_nonneg [OF ur y0] have zy: "z \<le> y + u * y" "y - u * y \<le> z"
    by (simp_all add: z_def)
  from u y0 have "u * y \<le> 1 * y" by (intro mult_right_mono)
  with zy have z0: "0 \<le> z" by simp
  define s where "s = a + z"
  from a0 z0 have s0: "0 \<le> s" by (simp add: s_def)
  define a' where "a' = fl s"
  from rounding_nonneg [OF ur s0] have as: "a' \<le> s + u * s" "s - u * s \<le> a'"
    by (simp_all add: a'_def)
  have step: "acc_cost (scan_prefix fl nodes t m r (Suc n)) = Fin a'"
    by (simp add: acc_cost_step cost_at_def a pn a'_def s_def z_def y_def bt_def
        del: scan_prefix.simps(2))
  have up: "a' \<le> c * ((1 + u) * P) * (G + bt)"
  proof -
    have "(1 + u) * y \<le> P * y" using P y0 by (intro mult_right_mono)
    with zy(1) have "z \<le> P * y" by (simp add: algebra_simps)
    with a(3) have "s \<le> c * P * G + P * y" by (simp add: s_def)
    also have "\<dots> = c * P * (G + bt)" by (simp add: y_def algebra_simps)
    finally have "s \<le> c * P * (G + bt)" .
    moreover from u have "0 \<le> 1 + u" by simp
    ultimately have "(1 + u) * s \<le> (1 + u) * (c * P * (G + bt))" by (intro mult_left_mono)
    with as(1) show ?thesis by (simp add: algebra_simps)
  qed
  have lo: "c * ((1 - u) * Q) * (G + bt) \<le> a'"
  proof -
    have "Q * y \<le> (1 - u) * y" using Q y0 by (intro mult_right_mono)
    with zy(2) have "Q * y \<le> z" by (simp add: algebra_simps)
    with a(2) have "c * Q * G + Q * y \<le> s" by (simp add: s_def)
    moreover have "c * Q * G + Q * y = c * Q * (G + bt)" by (simp add: y_def algebra_simps)
    ultimately have "c * Q * (G + bt) \<le> s" by simp
    moreover from u have "0 \<le> 1 - u" by simp
    ultimately have "(1 - u) * (c * Q * (G + bt)) \<le> (1 - u) * s" by (intro mult_left_mono)
    with as(2) show ?thesis by (simp add: algebra_simps)
  qed
  have sums: "(\<Sum>k<Suc n. bought_at fl nodes t m r k) = G + bt" by (simp add: G_def bt_def)
  have pw: "(1 + u) ^ (Suc n + 1) = (1 + u) * P" "(1 - u) ^ (Suc n + 1) = (1 - u) * Q"
    by (simp_all add: P_def Q_def)
  show ?case unfolding sums pw using step up lo by blast
qed

text \<open>
  Claim C2, amended: let the rounding be monotone and idempotent with unit roundoff
  \<open>u \<le> 1/8\<close> (as binary64 is with \<open>u = 2^-53\<close>), let \<open>mpg > 0\<close>, let the route
  miles of the stations, the route length and the range be floats, let there be a station at route mile 0 and none before it (the
  start station the view supplies), all stations priced 3.00 and all consecutive node
  gaps within \<open>max_range_miles\<close>. Then \<^verbatim>\<open>min_cost_plan\<close> returns a plan; the gallons
  bought by the scan add up to \<open>total_miles / mpg\<close> within the tolerance
  \<open>E = 9 u total_miles / mpg + (6 n + 3) u tank\<close>, where \<open>n\<close> is the number of scanned
  nodes and \<open>tank\<close> the computed tank capacity; and \<open>total_cost\<close> is the four-decimal
  rounding (which moves a number by at most 0.00005) of a running total \<open>a\<close> that lies
  between \<open>3 (1 - u)^(n + 1) (total_miles / mpg - E)\<close> and
  \<open>3 (1 + u)^(n + 1) (total_miles / mpg + E)\<close>. In exact arithmetic (\<open>u = 0\<close>) exactly
  \<open>total_miles / mpg\<close> gallons are bought and \<open>total_cost\<close> is
  \<open>total_miles / mpg * 3.00\<close> rounded to four decimals.
\<close>

theorem uniform_price_total:
  assumes mono: "monotone_rounding fl" and idem: "idempotent_rounding fl"
    and ur: "unit_roundoff fl u" and u: "0 \<le> u" "u \<le> 1 / 8"
    and mpg: "0 < mpg"
    and fr: "fl max_range_miles = max_range_miles" and ft: "fl total_miles = total_miles"
    and fs: "\<forall>s\<in>set stations. fl (route_miles s) = route_miles s"
    and price3: "\<forall>s\<in>set stations. price s = Fin 3"
    and gaps: "\<forall>i. i + 1 < length (build_nodes stations total_miles)
           \<longrightarrow> gap (build_nodes stations total_miles) i \<le> max_range_miles"
    and start: "\<exists>s\<in>set stations. route_miles s = 0"
    and nonneg: "\<forall>s\<in>set stations. 0 \<le> route_miles s"
    and total: "0 \<le> total_miles"
  shows "\<exists>p a. min_cost_plan fl stations total_miles mpg max_range_miles = Inr (Some p, None)
      \<and> total_cost p = Fin (fl (py_round a 4))
      \<and> \<bar>py_round a 4 - a\<bar> \<le> 1 / 20000
      \<and> 3 * (1 - u) ^ length (build_nodes stations total_miles)
           * (total_miles / mpg
              - gallons_tolerance u (length (build_nodes stations total_miles) - 1)
                  (total_miles / mpg) (fl (max_range_miles / mpg))) \<le> a
      \<and> a \<le> 3 * (1 + u) ^ length (build_nodes stations total_miles)
           * (total_miles / mpg
              + gallons_tolerance u (length (build_nodes stations total_miles) - 1)
                  (total_miles / mpg) (fl (max_range_miles / mpg)))
      \<and> \<bar>(\<Sum>k<length (build_nodes stations total_miles) - 1.
             bought_at fl (build_nodes stations total_miles) total_miles mpg max_range_miles k)
          - total_miles / mpg\<bar>
         \<le> gallons_tolerance u (length (build_nodes stations total_miles) - 1)
              (total_miles / mpg) (fl (max_range_miles / mpg))"
proof -
  let ?nodes = "build_nodes stations total_miles"
  let ?N = "length ?nodes"
  let ?pre = "scan_prefix fl ?nodes total_miles mpg max_range_miles"
  let ?b = "bought_at fl ?nodes total_miles mpg max_range_miles"
  define T where "T = fl (max_range_miles / mpg)"
  define n where "n = ?N - 1"
  define E where "E = gallons_tolerance u n (total_miles / mpg) T"
  define G where "G = (\<Sum>k<n. ?b k)"
  define w where "w = total_miles / mpg"
  from mono have mo: "\<And>x y. x \<le> y \<Longrightarrow> fl x \<le> fl y" by (simp add: monotone_rounding_def)
  from ur have z: "fl 0 = 0" by (rule rounding_zero)
  from u have u1: "u \<le> 1" by simp
  have srt: "sorted (map route_miles ?nodes)" by (rule build_nodes_sorted)
  have tot: "\<forall>j<?N. route_miles (?nodes ! j) \<le> total_miles"
    using build_nodes_le_total by blast
  have flt: "\<forall>j<?N. fl (route_miles (?nodes ! j)) = route_miles (?nodes ! j)"
    using build_nodes_floats [OF fs ft] by blast
  from start obtain s0 where s0: "s0 \<in> set stations" "route_miles s0 = 0" by blast
  with total have s0_flt: "s0 \<in> set (filter (\<lambda>n. route_miles n \<le> total_miles) stations)"
    by simp
  then have s0_in: "s0 \<in> set ?nodes" by (simp add: build_nodes_eq)
  from s0_flt have "0 < length (filter (\<lambda>n. route_miles n \<le> total_miles) stations)"
    by (rule length_pos_if_in_set)
  then have "1 \<le> length (filter (\<lambda>n. route_miles n \<le> total_miles) stations)"
    by linarith
  then have N2: "2 \<le> ?N" unfolding build_nodes_length by linarith
  then have n: "n \<le> ?N - 1" "n + 1 = ?N" "0 < ?N" unfolding n_def by linarith+
  have pos: "\<forall>j<?N. 0 \<le> route_miles (?nodes ! j)"
  proof (intro allI impI)
    fix j assume j: "j < ?N"
    show "0 \<le> route_miles (?nodes ! j)"
    proof (cases "j + 1 < ?N")
      case True
      from build_nodes_scanned [OF this] nonneg show ?thesis by blast
    next
      case False
      with j have "j = ?N - 1" by simp
      then show ?thesis using build_nodes_last [of stations total_miles] total by simp
    qed
  qed
  have first0: "route_miles (?nodes ! 0) = 0"
  proof -
    from n(3) pos have "0 \<le> route_miles (?nodes ! 0)" by blast
    moreover from s0_in obtain j where "j < ?N" "?nodes ! j = s0"
      by (auto simp: in_set_conv_nth)
    with s0(2) have "route_miles (?nodes ! 0) \<le> 0"
      using route_miles_mono [OF srt, of 0 j] by simp
    ultimately show ?thesis by simp
  qed
  have lastmile: "route_miles (?nodes ! n) = total_miles"
    unfolding n_def using build_nodes_last [of stations total_miles] by simp
  have scanned: "price (?nodes ! i) = Fin 3" if "i + 1 < ?N" for i
    using build_nodes_scanned [OF that] price3 by blast
  have anyprice: "price (?nodes ! j) = Fin 3 \<or> price (?nodes ! j) = PInf" if "j < ?N" for j
  proof (cases "j + 1 < ?N")
    case True
    then show ?thesis using scanned by simp
  next
    case False
    with that have "j = ?N - 1" by simp
    then show ?thesis using build_nodes_last [of stations total_miles] by simp
  qed
  have nc: "\<forall>i j. i + 1 < ?N \<and> j < ?N \<longrightarrow> \<not> fless (price (?nodes ! j)) (price (?nodes ! i))"
  proof (intro allI impI)
    fix i j assume "i + 1 < ?N \<and> j < ?N"
    then show "\<not> fless (price (?nodes ! j)) (price (?nodes ! i))"
      using scanned [of i] anyprice [of j] by auto
  qed
  from N2 have "0 + 1 < ?N" by simp
  with gaps gap_nonneg [OF srt this] have r0: "0 \<le> max_range_miles" by fastforce
  from r0 mpg have "fl 0 \<le> fl (max_range_miles / mpg)" by (intro mo) simp
  with z have T0: "0 \<le> T" by (simp add: T_def)
  from total mpg have w0: "0 \<le> w" by (simp add: w_def)
  define p where "p = u * T"
  define c where "c = u * w"
  define k where "k = real n * p"
  from u T0 have p: "0 \<le> p" by (simp add: p_def)
  from u w0 have c: "0 \<le> c" by (simp add: c_def)
  from p have k: "0 \<le> k" by (simp add: k_def)
  have E: "E = 9 * c + 6 * k + 3 * p"
    by (simp add: E_def gallons_tolerance_def c_def k_def p_def w_def algebra_simps)
  from fuel_invariant [OF mono idem ur u mpg fr r0 srt tot flt gaps n(1)]
  have f_lo: "- (3 * p) \<le> fuel (?pre n)" by (simp add: p_def T_def algebra_simps)
  from fuel_upper [OF mono idem ur u mpg fr r0 srt tot flt gaps nc pos n(3) n(1)]
  have f_up: "fuel (?pre n) \<le> 6 * c + 3 * p + 2 * k"
    unfolding lastmile by (simp add: c_def p_def k_def T_def w_def algebra_simps)
  from gallons_telescope [OF mono idem ur u mpg fr r0 srt tot flt gaps n(1)]
  have tel: "\<bar>G - fuel (?pre n) - w\<bar> \<le> 4 * k + 3 * c"
    unfolding lastmile first0
    by (simp add: G_def c_def p_def k_def T_def w_def algebra_simps)
  from f_lo f_up tel c k p have GE: "\<bar>G - w\<bar> \<le> E" unfolding E by linarith
  have "\<forall>k<n. price (?nodes ! k) = Fin 3" using scanned by (simp add: n_def)
  from cost_accumulates [OF ur u(1) u1 _ this, of total_miles mpg max_range_miles]
  obtain a where a: "acc_cost (?pre n) = Fin a"
    "3 * (1 - u) ^ (n + 1) * G \<le> a" "a \<le> 3 * (1 + u) ^ (n + 1) * G"
    by (auto simp: G_def)
  from u have c3: "0 \<le> 3 * (1 - u) ^ (n + 1)" "0 \<le> 3 * (1 + u) ^ (n + 1)" by simp_all
  from GE have GE': "w - E \<le> G" "G \<le> w + E" by linarith+
  have "3 * (1 - u) ^ (n + 1) * (w - E) \<le> 3 * (1 - u) ^ (n + 1) * G"
    using GE'(1) c3(1) by (rule mult_left_mono)
  moreover have "3 * (1 + u) ^ (n + 1) * G \<le> 3 * (1 + u) ^ (n + 1) * (w + E)"
    using GE'(2) c3(2) by (rule mult_left_mono)
  ultimately have ab: "3 * (1 - u) ^ (n + 1) * (w - E) \<le> a" "a \<le> 3 * (1 + u) ^ (n + 1) * (w + E)"
    using a(2,3) by linarith+
  have feasible: "first_gap fl ?nodes max_range_miles 0 = None"
  proof (rule first_gap_feasible, intro allI impI)
    fix i assume i: "i + 1 < ?N"
    with gaps have "gap ?nodes i \<le> max_range_miles" by simp
    then have "computed_gap fl ?nodes i \<le> fl max_range_miles"
      unfolding computed_gap_def by (intro mo) (simp add: gap_def)
    moreover have "fl 0 \<le> fl (1 / 1000000)" by (intro mo) simp
    with z have "fl max_range_miles \<le> threshold fl max_range_miles"
      unfolding threshold_def by (intro mo) simp
    ultimately show "computed_gap fl ?nodes i \<le> threshold fl max_range_miles" by simp
  qed
  let ?p = "\<lparr>stops = acc_plan (?pre (?N - 1)),
             total_cost = Fin (fl (py_round a 4)),
             tank_gallons_capacity = fl (py_round (fl (max_range_miles / mpg)) 4)\<rparr>"
  from mpg have "mpg \<noteq> 0" by simp
  from min_cost_plan_feasible [OF this feasible] a(1)
  have plan: "min_cost_plan fl stations total_miles mpg max_range_miles = Inr (Some ?p, None)"
    by (simp add: n_def)
  have rnd: "\<bar>py_round a 4 - a\<bar> \<le> 1 / 20000"
    using py_round_error [of a 4] by simp
  from ab have ab': "3 * (1 - u) ^ ?N * (w - E) \<le> a" "a \<le> 3 * (1 + u) ^ ?N * (w + E)"
    by (simp_all only: n(2))
  show ?thesis
  proof (intro exI conjI)
    show "min_cost_plan fl stations total_miles mpg max_range_miles = Inr (Some ?p, None)"
      by (fact plan)
    show "total_cost ?p = Fin (fl (py_round a 4))" by simp
    show "\<bar>py_round a 4 - a\<bar> \<le> 1 / 20000" by (fact rnd)
    show "3 * (1 - u) ^ ?N
           * (total_miles / mpg
              - gallons_tolerance u (?N - 1) (total_miles / mpg) (fl (max_range_miles / mpg)))
          \<le> a"
      using ab'(1) unfolding w_def E_def T_def n_def .
    show "a \<le> 3 * (1 + u) ^ ?N
           * (total_miles / mpg
              + gallons_tolerance u (?N - 1) (total_miles / mpg) (fl (max_range_miles / mpg)))"
      using ab'(2) unfolding w_def E_def T_def n_def .
    show "\<bar>(\<Sum>k<?N - 1. ?b k) - total_miles / mpg\<bar>
         \<le> gallons_tolerance u (?N - 1) (total_miles / mpg) (fl (max_range_miles / mpg))"
      using GE unfolding G_def w_def E_def T_def n_def .
  qed
qed

lemma uniform_nodes:
  "build_nodes [station (stop_at 1 3) 0, station (stop_at 2 3) 300, station (stop_at 3 3) 700] 1000
   = [station (stop_at 1 3) 0, station (stop_at 2 3) 300, station (stop_at 3 3) 700, terminal 1000]"
  by (simp add: build_nodes_eq)

lemma uniform_gaps:
  "\<forall>i. i + 1 < length (build_nodes [station (stop_at 1 3) 0, station (stop_at 2 3) 300,
                                       station (stop_at 3 3) 700] 1000)
       \<longrightarrow> gap (build_nodes [station (stop_at 1 3) 0, station (stop_at 2 3) 300,
                              station (stop_at 3 3) 700] 1000) i \<le> 500"
proof (intro allI impI)
  let ?sts = "[station (stop_at 1 3) 0, station (stop_at 2 3) 300, station (stop_at 3 3) 700]"
  fix i assume "i + 1 < length (build_nodes ?sts 1000)"
  then have "i = 0 \<or> i = 1 \<or> i = 2" by (auto simp: uniform_nodes)
  then show "gap (build_nodes ?sts 1000) i \<le> 500"
    by (auto simp: uniform_nodes gap_def)
qed

text \<open>
  Stations at miles 0, 300 and 700 priced 3.00, a route of 1000 miles, 10 miles per gallon
  and a range of 500 miles: the bounds of the theorem leave only 300 for the total cost,
  in exact arithmetic and in binary64.
\<close>

theorem uniform_price_total_witness:
  "(\<exists>p. min_cost_plan id [station (stop_at 1 3) 0, station (stop_at 2 3) 300,
                           station (stop_at 3 3) 700] 1000 10 500 = Inr (Some p, None)
       \<and> total_cost p = Fin 300)
   \<and> (\<exists>p. min_cost_plan binary64 [station (stop_at 1 3) 0, station (stop_at 2 3) 300,
                           station (stop_at 3 3) 700] 1000 10 500 = Inr (Some p, None)
       \<and> total_cost p = Fin 300)"
proof -
  let ?sts = "[station (stop_at 1 3) 0, station (stop_at 2 3) 300, station (stop_at 3 3) 700]"
  have h: "monotone_rounding id" "idempotent_rounding id" "unit_roundoff id 0"
    "(0 :: real) \<le> 0" "(0 :: real) \<le> 1 / 8" "(0 :: real) < 10"
    "id (500 :: real) = 500" "id (1000 :: real) = 1000"
    "\<forall>s\<in>set ?sts. id (route_miles s) = route_miles s"
    "\<forall>s\<in>set ?sts. price s = Fin 3"
    by (simp_all add: monotone_rounding_def idempotent_rounding_def unit_roundoff_def)
  have h2: "\<exists>s\<in>set ?sts. route_miles s = 0" "\<forall>s\<in>set ?sts. 0 \<le> route_miles s"
    "(0 :: real) \<le> 1000"
    by simp_all
  have r300: "py_round 300 4 = 300" by (simp add: py_round_def)
  from uniform_price_total [OF h uniform_gaps h2]
  obtain p a where p: "min_cost_plan id ?sts 1000 10 500 = Inr (Some p, None)"
    "total_cost p = Fin (id (py_round a 4))"
    "3 * (1 - 0) ^ length (build_nodes ?sts 1000)
       * (1000 / 10 - gallons_tolerance 0 (length (build_nodes ?sts 1000) - 1) (1000 / 10)
                        (id (500 / 10))) \<le> a"
    "a \<le> 3 * (1 + 0) ^ length (build_nodes ?sts 1000)
       * (1000 / 10 + gallons_tolerance 0 (length (build_nodes ?sts 1000) - 1) (1000 / 10)
                        (id (500 / 10)))"
    by blast
  from p(3,4) have "a = 300" by (simp add: gallons_tolerance_def)
  with r300 p(1,2)
  have 1: "\<exists>p. min_cost_plan id ?sts 1000 10 500 = Inr (Some p, None) \<and> total_cost p = Fin 300"
    by auto
  have h64: "(0 :: real) \<le> 1 / 2 ^ 53" "(1 :: real) / 2 ^ 53 \<le> 1 / 8" "(0 :: real) < 10"
    "binary64 500 = 500" "binary64 1000 = 1000"
    "\<forall>s\<in>set ?sts. binary64 (route_miles s) = route_miles s"
    "\<forall>s\<in>set ?sts. price s = Fin 3"
    by (simp_all add: binary64_small_int)
  from uniform_price_total [OF binary64_rounding h64 uniform_gaps h2]
  obtain q b where q: "min_cost_plan binary64 ?sts 1000 10 500 = Inr (Some q, None)"
    "total_cost q = Fin (binary64 (py_round b 4))"
    "3 * (1 - 1 / 2 ^ 53) ^ length (build_nodes ?sts 1000)
       * (1000 / 10 - gallons_tolerance (1 / 2 ^ 53) (length (build_nodes ?sts 1000) - 1)
                        (1000 / 10) (binary64 (500 / 10))) \<le> b"
    "b \<le> 3 * (1 + 1 / 2 ^ 53) ^ length (build_nodes ?sts 1000)
       * (1000 / 10 + gallons_tolerance (1 / 2 ^ 53) (length (build_nodes ?sts 1000) - 1)
                        (1000 / 10) (binary64 (500 / 10)))"
    by blast
  from q(3) have lo: "300 - 1 / 40000 < b"
    by (simp add: gallons_tolerance_def uniform_nodes binary64_small_int; linarith)
  from q(4) have hi: "b < 300 + 1 / 40000"
    by (simp add: gallons_tolerance_def uniform_nodes binary64_small_int; linarith)
  from lo hi have "\<bar>b - 300\<bar> < 1 / 20000" by linarith
  then have "\<bar>b - of_int 3000000 / 10 ^ 4\<bar> < 1 / (2 * 10 ^ 4)" by simp
  then have "py_round b 4 = of_int 3000000 / 10 ^ 4" by (rule py_round_near)
  then have "py_round b 4 = 300" by simp
  with q(1,2)
  have 2: "\<exists>p. min_cost_plan binary64 ?sts 1000 10 500 = Inr (Some p, None)
             \<and> total_cost p = Fin 300"
    by (auto simp: binary64_small_int)
  from 1 2 show ?thesis by (rule conjI)
qed

text \<open>
  Claim C2, as stated, conditions only on the prices and the gaps. It fails for a
  negative \<open>mpg\<close>, which the request serializer accepts: with one station at mile 0
  priced 3.00, a route of 100 miles and \<open>mpg = -10\<close> nothing is bought and the total cost
  is 0, not \<open>-30\<close>. It also fails when no station is at mile 0: with the only station at
  mile 50 the plan buys 5 gallons for 15.00, not 10 gallons for 30.00. Both runs are the
  same in exact arithmetic and in binary64.
\<close>

theorem uniform_price_counterexample:
  "min_cost_plan id [station (stop_at 1 3) 0] 100 (- 10) 500
     = Inr (Some \<lparr>stops = [], total_cost = Fin 0, tank_gallons_capacity = - 50\<rparr>, None)
   \<and> min_cost_plan binary64 [station (stop_at 1 3) 0] 100 (- 10) 500
     = Inr (Some \<lparr>stops = [], total_cost = Fin 0, tank_gallons_capacity = - 50\<rparr>, None)
   \<and> gap (build_nodes [station (stop_at 1 3) 0] 100) 0 \<le> 500
   \<and> 100 / (- 10) * 3 = (- 30 :: real)
   \<and> min_cost_plan id [station (stop_at 1 3) 50] 100 10 500
     = Inr (Some \<lparr>stops = [stop_entry id (stop_at 1 3) 50 5 (Fin 15)], total_cost = Fin 15,
                  tank_gallons_capacity = 50\<rparr>, None)
   \<and> min_cost_plan binary64 [station (stop_at 1 3) 50] 100 10 500
     = Inr (Some \<lparr>stops = [stop_entry binary64 (stop_at 1 3) 50 5 (Fin 15)],
                  total_cost = Fin 15, tank_gallons_capacity = 50\<rparr>, None)
   \<and> gap (build_nodes [station (stop_at 1 3) 50] 100) 0 \<le> 500
   \<and> 100 / 10 * 3 = (30 :: real)"
proof -
  have n2: "build_nodes [station (stop_at 1 3) 50] 100 = [station (stop_at 1 3) 50, terminal 100]"
    by (simp add: build_nodes_eq)
  have r: "py_round (- 50) 4 = - 50" "py_round 50 4 = 50" "py_round 15 4 = 15" "py_round 5 4 = 5"
    "py_round 0 4 = 0"
    by (simp_all add: py_round_def)
  have 1: "min_cost_plan id [station (stop_at 1 3) 0] 100 (- 10) 500
     = Inr (Some \<lparr>stops = [], total_cost = Fin 0, tank_gallons_capacity = - 50\<rparr>, None)
   \<and> gap (build_nodes [station (stop_at 1 3) 0] 100) 0 \<le> 500
   \<and> 100 / (- 10) * 3 = (- 30 :: real)
   \<and> min_cost_plan id [station (stop_at 1 3) 50] 100 10 500
     = Inr (Some \<lparr>stops = [stop_entry id (stop_at 1 3) 50 5 (Fin 15)], total_cost = Fin 15,
                  tank_gallons_capacity = 50\<rparr>, None)
   \<and> gap (build_nodes [station (stop_at 1 3) 50] 100) 0 \<le> 500
   \<and> 100 / 10 * 3 = (30 :: real)"
    by (simp add: one_node n2 gap_def plan_eval r stop_entry_def)
  have 2: "min_cost_plan binary64 [station (stop_at 1 3) 0] 100 (- 10) 500
     = Inr (Some \<lparr>stops = [], total_cost = Fin 0, tank_gallons_capacity = - 50\<rparr>, None)"
    by (simp add: one_node plan_eval r small_run_roundings)
  have 3: "min_cost_plan binary64 [station (stop_at 1 3) 50] 100 10 500
     = Inr (Some \<lparr>stops = [stop_entry binary64 (stop_at 1 3) 50 5 (Fin 15)],
                  total_cost = Fin 15, tank_gallons_capacity = 50\<rparr>, None)"
    by (simp add: n2 plan_eval r stop_entry_def small_run_roundings)
  from 1 2 3 show ?thesis by (simp only: simp_thms)
qed

subsection \<open>Total cost and recorded stops\<close>

lemma tiny_nodes:
  "build_nodes [station (stop_at 1 4) 0] (1 / 262144)
   = [station (stop_at 1 4) 0, terminal (1 / 262144)]"
  by (simp add: build_nodes_eq)

lemma py_round_tiny: "py_round (1 / 524288) 4 = 0" "py_round 64 4 = 64"
  by (simp_all add: py_round_def)

text \<open>
  A route of \<open>2^-18\<close> miles with one station at mile 0 priced 4.00, 8 miles per gallon and
  a range of 512 miles: the scan buys \<open>2^-21\<close> gallons, less than \<open>1e-6\<close>, for
  \<open>2^-19\<close>; the purchase is paid for but not recorded. Every number that occurs is a
  power of two, so the run is the same in every monotone rounding that keeps them.
\<close>

lemma tiny_plan:
  assumes mono: "monotone_rounding fl"
    and ex: "fl 0 = 0" "fl 64 = 64" "fl 512 = 512" "fl (1 / 262144) = 1 / 262144"
      "fl (1 / 524288) = 1 / 524288" "fl (1 / 2097152) = 1 / 2097152"
  shows "min_cost_plan fl [station (stop_at 1 4) 0] (1 / 262144) 8 512
           = Inr (Some \<lparr>stops = [], total_cost = Fin 0, tank_gallons_capacity = 64\<rparr>, None)
       \<and> fsum fl (map (cost_at fl (build_nodes [station (stop_at 1 4) 0] (1 / 262144))
                        (1 / 262144) 8 512)
                   [0 ..< length (build_nodes [station (stop_at 1 4) 0] (1 / 262144)) - 1])
           = Fin (1 / 524288)"
proof -
  let ?t = "1 / 262144 :: real"
  let ?nodes = "[station (stop_at 1 4) 0, terminal ?t]"
  from mono have m: "\<And>x y. x \<le> y \<Longrightarrow> fl x \<le> fl y" by (simp add: monotone_rounding_def)
  have eps: "0 \<le> fl (1 / 1000000)" "1 / 2097152 \<le> fl (1 / 1000000)"
    using m [of 0 "1 / 1000000"] m [of "1 / 2097152" "1 / 1000000"] ex by simp_all
  then have thr: "512 \<le> threshold fl 512"
    using m [of 512 "512 + fl (1 / 1000000)"] ex by (simp add: threshold_def)
  have g0: "computed_gap fl ?nodes 0 = ?t"
    by (simp add: computed_gap_def ex)
  have feasible: "first_gap fl ?nodes 512 0 = None"
  proof (rule first_gap_feasible, intro allI impI)
    fix i assume "i + 1 < length ?nodes"
    then have "i = 0" by simp
    with g0 thr show "computed_gap fl ?nodes i \<le> threshold fl 512" by simp
  qed
  have look2: "find_cheaper fl ?nodes 0 (Fin 4) 512 (Suc (Suc 0)) = None"
    by (simp add: find_cheaper.simps [of fl ?nodes 0 "Fin 4" 512 "Suc (Suc 0)"])
  have look: "find_cheaper fl ?nodes 0 (Fin 4) 512 (Suc 0) = None"
    by (simp add: find_cheaper.simps [of fl ?nodes 0 "Fin 4" 512 "Suc 0"] look2 ex)
  have b0: "bought_at fl ?nodes ?t 8 512 0 = 1 / 2097152"
    by (simp add: bought_at_def buy_gal_def target_miles_def look Let_def ex)
  have c0: "cost_at fl ?nodes ?t 8 512 0 = Fin (1 / 524288)"
    by (simp add: cost_at_def b0 ex)
  have len: "length ?nodes - 1 = Suc 0" by simp
  have plan0: "acc_plan (scan_prefix fl ?nodes ?t 8 512 (Suc 0)) = []"
    using b0 eps by (simp add: acc_plan_step del: scan_prefix.simps(2))
  have cost0: "acc_cost (scan_prefix fl ?nodes ?t 8 512 (Suc 0)) = Fin (1 / 524288)"
    by (simp add: acc_cost_step c0 ex del: scan_prefix.simps(2))
  have "min_cost_plan fl [station (stop_at 1 4) 0] ?t 8 512
      = Inr (Some \<lparr>stops = [], total_cost = Fin 0, tank_gallons_capacity = 64\<rparr>, None)"
    using min_cost_plan_feasible [of 8 fl "[station (stop_at 1 4) 0]" ?t 512] feasible
    by (simp add: tiny_nodes plan0 cost0 py_round_tiny ex del: scan_prefix.simps(2))
  moreover have "fsum fl (map (cost_at fl ?nodes ?t 8 512) [0 ..< Suc 0]) = Fin (1 / 524288)"
    by (simp add: fsum_def c0 ex)
  ultimately show ?thesis by (simp add: tiny_nodes)
qed

lemma fsum_snoc: "fsum fl (xs @ [x]) = fadd fl (fsum fl xs) x"
  by (simp add: fsum_def)

text \<open>
  The running total is at least the running sum of the products of the recorded
  purchases alone, in a monotone and idempotent rounding, when the prices are finite and
  not negative.
\<close>

lemma recorded_costs_le:
  assumes mono: "monotone_rounding fl" and idem: "idempotent_rounding fl" and z: "fl 0 = 0"
    and pr: "\<forall>k<n. \<exists>c. 0 \<le> c \<and> price (nodes ! k) = Fin c"
  shows "\<exists>a b. fsum fl (map (cost_at fl nodes t m r) [0 ..< n]) = Fin a
     \<and> fsum fl (map (cost_at fl nodes t m r) (filter (recorded fl nodes t m r) [0 ..< n]))
         = Fin b
     \<and> 0 \<le> b \<and> b \<le> a \<and> fl a = a \<and> fl b = b"
  using pr
proof (induction n)
  case 0
  from z show ?case by (simp add: fsum_def)
next
  case (Suc n)
  from mono have mo: "\<And>x y. x \<le> y \<Longrightarrow> fl x \<le> fl y" by (simp add: monotone_rounding_def)
  from idem have id: "\<And>x. fl (fl x) = fl x" by (simp add: idempotent_rounding_def)
  from Suc obtain a b where
    ab: "fsum fl (map (cost_at fl nodes t m r) [0 ..< n]) = Fin a"
      "fsum fl (map (cost_at fl nodes t m r) (filter (recorded fl nodes t m r) [0 ..< n]))
         = Fin b"
      "0 \<le> b" "b \<le> a" "fl a = a" "fl b = b"
    by auto
  from Suc.prems obtain c where c: "0 \<le> c" "price (nodes ! n) = Fin c" by auto
  define y where "y = fl (bought_at fl nodes t m r n * c)"
  have cost: "cost_at fl nodes t m r n = Fin y" by (simp add: cost_at_def c y_def)
  have "0 \<le> bought_at fl nodes t m r n * c"
    using c(1) by (simp add: bought_at_def buy_gal_def Let_def)
  then have "fl 0 \<le> y" unfolding y_def by (rule mo)
  with z have y: "0 \<le> y" by simp
  have all: "fsum fl (map (cost_at fl nodes t m r) [0 ..< Suc n]) = Fin (fl (a + y))"
    by (simp add: fsum_snoc ab(1) cost)
  have fa: "fl (fl (a + y)) = fl (a + y)" by (rule id)
  show ?case
  proof (cases "recorded fl nodes t m r n")
    case True
    then have "fsum fl (map (cost_at fl nodes t m r)
                          (filter (recorded fl nodes t m r) [0 ..< Suc n])) = Fin (fl (b + y))"
      by (simp add: fsum_snoc ab(2) cost)
    moreover from ab(3) y have "fl 0 \<le> fl (b + y)" by (intro mo) simp
    moreover from ab(4) have "fl (b + y) \<le> fl (a + y)" by (intro mo) simp
    moreover have "fl (fl (b + y)) = fl (b + y)" by (rule id)
    ultimately show ?thesis using all fa z by auto
  next
    case False
    then have "fsum fl (map (cost_at fl nodes t m r)
                          (filter (recorded fl nodes t m r) [0 ..< Suc n])) = Fin b"
      by (simp add: ab(2))
    moreover from ab(4) y have "fl b \<le> fl (a + y)" by (intro mo) simp
    ultimately show ?thesis using all fa ab(3,5,6) by auto
  qed
qed

text \<open>
  Claim C10, amended: when \<^verbatim>\<open>min_cost_plan\<close> returns a plan, in every rounding,
  \<open>total_cost\<close> is the four-decimal rounding of the running float sum, over all scanned
  nodes in order, of the products gallons bought times price; and the stops list holds,
  in order, exactly the iterations at a node with a catalogue entry and more than
  \<open>1e-6\<close> gallons bought, each with the four-decimal rounding of its own product as cost.
  In a monotone and idempotent rounding, for finite prices that are not negative, the
  total before rounding is at least the running sum of the un-rounded products of the
  recorded stops. It can strictly exceed the sum of the cost fields: on a route
  of \<open>2^-18\<close> miles with one station priced 4.00 at mile 0, 8 miles per gallon and a
  range of 512 miles, \<open>2^-21\<close> gallons are bought and paid for (\<open>2^-19\<close>), and no stop
  is recorded; this holds in every monotone rounding in which 0, 64, 512, \<open>2^-18\<close>,
  \<open>2^-19\<close> and \<open>2^-21\<close> are floats, as they are in binary64 and in exact arithmetic.
\<close>

theorem total_cost_and_stops:
  "(min_cost_plan fl stations total_miles mpg max_range_miles = Inr (Some p, e) \<longrightarrow>
      total_cost p
        = fround fl
            (fsum fl (map (cost_at fl (build_nodes stations total_miles) total_miles mpg
                             max_range_miles)
                        [0 ..< length (build_nodes stations total_miles) - 1])) 4
    \<and> stops p
        = map (\<lambda>k. stop_entry fl (the (fs (build_nodes stations total_miles ! k)))
                      (route_miles (build_nodes stations total_miles ! k))
                      (bought_at fl (build_nodes stations total_miles) total_miles mpg
                         max_range_miles k)
                      (cost_at fl (build_nodes stations total_miles) total_miles mpg
                         max_range_miles k))
            (filter (recorded fl (build_nodes stations total_miles) total_miles mpg
                       max_range_miles)
               [0 ..< length (build_nodes stations total_miles) - 1]))
   \<and> (monotone_rounding fl \<and> idempotent_rounding fl \<and> fl 0 = 0
        \<and> (\<forall>s\<in>set stations. \<exists>c. 0 \<le> c \<and> price s = Fin c) \<longrightarrow>
      (\<exists>a b. fsum fl (map (cost_at fl (build_nodes stations total_miles) total_miles mpg
                               max_range_miles)
                          [0 ..< length (build_nodes stations total_miles) - 1]) = Fin a
          \<and> fsum fl (map (cost_at fl (build_nodes stations total_miles) total_miles mpg
                               max_range_miles)
                          (filter (recorded fl (build_nodes stations total_miles) total_miles mpg
                                     max_range_miles)
                             [0 ..< length (build_nodes stations total_miles) - 1])) = Fin b
          \<and> b \<le> a))
   \<and> (monotone_rounding fl \<and> fl 0 = 0 \<and> fl 64 = 64 \<and> fl 512 = 512
        \<and> fl (1 / 262144) = 1 / 262144 \<and> fl (1 / 524288) = 1 / 524288
        \<and> fl (1 / 2097152) = 1 / 2097152 \<longrightarrow>
      (\<exists>q. min_cost_plan fl [station (stop_at 1 4) 0] (1 / 262144) 8 512 = Inr (Some q, None)
          \<and> stops q = [] \<and> fsum fl (map cost (stops q)) = Fin 0
          \<and> fsum fl (map (cost_at fl (build_nodes [station (stop_at 1 4) 0] (1 / 262144))
                           (1 / 262144) 8 512)
                      [0 ..< length (build_nodes [station (stop_at 1 4) 0] (1 / 262144)) - 1])
              = Fin (1 / 524288)
          \<and> fless (fsum fl (map cost (stops q))) (Fin (1 / 524288))))"
proof (intro conjI impI)
  assume plan: "min_cost_plan fl stations total_miles mpg max_range_miles = Inr (Some p, e)"
  let ?nodes = "build_nodes stations total_miles"
  from min_cost_plan_SomeD [OF plan]
  have st: "stops p = acc_plan (scan_prefix fl ?nodes total_miles mpg max_range_miles
                                  (length ?nodes - 1))"
    and tc: "total_cost p = fround fl (acc_cost (scan_prefix fl ?nodes total_miles mpg
                                  max_range_miles (length ?nodes - 1))) 4"
    by simp_all
  show "total_cost p
        = fround fl (fsum fl (map (cost_at fl ?nodes total_miles mpg max_range_miles)
                                [0 ..< length ?nodes - 1])) 4"
    unfolding tc acc_cost_prefix ..
  show "stops p
        = map (\<lambda>k. stop_entry fl (the (fs (?nodes ! k))) (route_miles (?nodes ! k))
                      (bought_at fl ?nodes total_miles mpg max_range_miles k)
                      (cost_at fl ?nodes total_miles mpg max_range_miles k))
            (filter (recorded fl ?nodes total_miles mpg max_range_miles)
               [0 ..< length ?nodes - 1])"
    unfolding st acc_plan_prefix ..
next
  let ?nodes = "build_nodes stations total_miles"
  assume a: "monotone_rounding fl \<and> idempotent_rounding fl \<and> fl 0 = 0
        \<and> (\<forall>s\<in>set stations. \<exists>c. 0 \<le> c \<and> price s = Fin c)"
  have "\<forall>k<length ?nodes - 1. \<exists>c. 0 \<le> c \<and> price (?nodes ! k) = Fin c"
  proof (intro allI impI)
    fix k assume "k < length ?nodes - 1"
    then have "k + 1 < length ?nodes" by simp
    from build_nodes_scanned [OF this] a show "\<exists>c. 0 \<le> c \<and> price (?nodes ! k) = Fin c"
      by blast
  qed
  with a have "\<exists>a b. fsum fl (map (cost_at fl ?nodes total_miles mpg max_range_miles)
                          [0 ..< length ?nodes - 1]) = Fin a
     \<and> fsum fl (map (cost_at fl ?nodes total_miles mpg max_range_miles)
                  (filter (recorded fl ?nodes total_miles mpg max_range_miles)
                     [0 ..< length ?nodes - 1])) = Fin b
     \<and> 0 \<le> b \<and> b \<le> a \<and> fl a = a \<and> fl b = b"
    by (intro recorded_costs_le) simp_all
  then show "\<exists>a b. fsum fl (map (cost_at fl ?nodes total_miles mpg max_range_miles)
                          [0 ..< length ?nodes - 1]) = Fin a
     \<and> fsum fl (map (cost_at fl ?nodes total_miles mpg max_range_miles)
                  (filter (recorded fl ?nodes total_miles mpg max_range_miles)
                     [0 ..< length ?nodes - 1])) = Fin b
     \<and> b \<le> a"
    by blast
next
  assume a: "monotone_rounding fl \<and> fl 0 = 0 \<and> fl 64 = 64 \<and> fl 512 = 512
        \<and> fl (1 / 262144) = 1 / 262144 \<and> fl (1 / 524288) = 1 / 524288
        \<and> fl (1 / 2097152) = 1 / 2097152"
  then have "min_cost_plan fl [station (stop_at 1 4) 0] (1 / 262144) 8 512
           = Inr (Some \<lparr>stops = [], total_cost = Fin 0, tank_gallons_capacity = 64\<rparr>, None)
       \<and> fsum fl (map (cost_at fl (build_nodes [station (stop_at 1 4) 0] (1 / 262144))
                        (1 / 262144) 8 512)
                   [0 ..< length (build_nodes [station (stop_at 1 4) 0] (1 / 262144)) - 1])
           = Fin (1 / 524288)"
    by (intro tiny_plan) simp_all
  then show "\<exists>q. min_cost_plan fl [station (stop_at 1 4) 0] (1 / 262144) 8 512
                   = Inr (Some q, None)
          \<and> stops q = [] \<and> fsum fl (map cost (stops q)) = Fin 0
          \<and> fsum fl (map (cost_at fl (build_nodes [station (stop_at 1 4) 0] (1 / 262144))
                           (1 / 262144) 8 512)
                      [0 ..< length (build_nodes [station (stop_at 1 4) 0] (1 / 262144)) - 1])
              = Fin (1 / 524288)
          \<and> fless (fsum fl (map cost (stops q))) (Fin (1 / 524288))"
    by (simp add: fsum_def)
qed

theorem total_cost_and_stops_witness:
  "total_cost \<lparr>stops = [stop_entry id (stop_at 1 4) 0 20 (Fin 80),
                          stop_entry id (stop_at 2 3) 200 40 (Fin 120)],
                 total_cost = Fin 200, tank_gallons_capacity = 50\<rparr>
     = fround id
         (fsum id (map (cost_at id
                          (build_nodes [station (stop_at 1 4) 0, station (stop_at 2 3) 200] 600)
                          600 10 500)
                     [0 ..< length (build_nodes [station (stop_at 1 4) 0,
                                                  station (stop_at 2 3) 200] 600) - 1])) 4
   \<and> (\<exists>q. min_cost_plan id [station (stop_at 1 4) 0] (1 / 262144) 8 512 = Inr (Some q, None)
        \<and> stops q = []
        \<and> fsum id (map (cost_at id (build_nodes [station (stop_at 1 4) 0] (1 / 262144))
                         (1 / 262144) 8 512)
                    [0 ..< length (build_nodes [station (stop_at 1 4) 0] (1 / 262144)) - 1])
            = Fin (1 / 524288))
   \<and> (\<exists>q. min_cost_plan binary64 [station (stop_at 1 4) 0] (1 / 262144) 8 512
             = Inr (Some q, None)
        \<and> stops q = []
        \<and> fsum binary64
             (map (cost_at binary64 (build_nodes [station (stop_at 1 4) 0] (1 / 262144))
                     (1 / 262144) 8 512)
                [0 ..< length (build_nodes [station (stop_at 1 4) 0] (1 / 262144)) - 1])
            = Fin (1 / 524288))"
proof -
  have m: "monotone_rounding id" by (simp add: monotone_rounding_def)
  note t = total_cost_and_stops [of id "[station (stop_at 1 4) 0, station (stop_at 2 3) 200]"
      600 10 500 "\<lparr>stops = [stop_entry id (stop_at 1 4) 0 20 (Fin 80),
                          stop_entry id (stop_at 2 3) 200 40 (Fin 120)],
                 total_cost = Fin 200, tank_gallons_capacity = 50\<rparr>" None]
  from t [THEN conjunct1] cheaper_plan
  have 1: "total_cost \<lparr>stops = [stop_entry id (stop_at 1 4) 0 20 (Fin 80),
                          stop_entry id (stop_at 2 3) 200 40 (Fin 120)],
                 total_cost = Fin 200, tank_gallons_capacity = 50\<rparr>
     = fround id
         (fsum id (map (cost_at id
                          (build_nodes [station (stop_at 1 4) 0, station (stop_at 2 3) 200] 600)
                          600 10 500)
                     [0 ..< length (build_nodes [station (stop_at 1 4) 0,
                                                  station (stop_at 2 3) 200] 600) - 1])) 4"
    by blast
  from t [THEN conjunct2, THEN conjunct2] m
  have 2: "\<exists>q. min_cost_plan id [station (stop_at 1 4) 0] (1 / 262144) 8 512
                  = Inr (Some q, None)
        \<and> stops q = []
        \<and> fsum id (map (cost_at id (build_nodes [station (stop_at 1 4) 0] (1 / 262144))
                         (1 / 262144) 8 512)
                    [0 ..< length (build_nodes [station (stop_at 1 4) 0] (1 / 262144)) - 1])
            = Fin (1 / 524288)"
    by auto
  note t64 = total_cost_and_stops [of binary64 "[]" 0 1 0 undefined None]
  from t64 [THEN conjunct2, THEN conjunct2] binary64_rounding(1)
  have 3: "\<exists>q. min_cost_plan binary64 [station (stop_at 1 4) 0] (1 / 262144) 8 512
             = Inr (Some q, None)
        \<and> stops q = []
        \<and> fsum binary64
             (map (cost_at binary64 (build_nodes [station (stop_at 1 4) 0] (1 / 262144))
                     (1 / 262144) 8 512)
                [0 ..< length (build_nodes [station (stop_at 1 4) 0] (1 / 262144)) - 1])
            = Fin (1 / 524288)"
    by (auto simp: binary64_small_int binary64_small_dyadic)
  from 1 2 3 show ?thesis by (intro conjI)
qed

lemma close_nodes:
  "build_nodes [station (stop_at 1 4) 0, station (stop_at 2 3) (5 / 32768)] (5 / 16384)
   = [station (stop_at 1 4) 0, station (stop_at 2 3) (5 / 32768), terminal (5 / 16384)]"
  by (simp add: build_nodes_eq)

lemma py_round_small:
  "py_round (5 / 65536) 4 = 1 / 10000" "py_round (15 / 262144) 4 = 1 / 10000"
  "py_round (35 / 262144) 4 = 1 / 10000" "py_round 64 4 = 64"
  by (simp_all add: py_round_def)

lemma close_scan:
  "scan id [station (stop_at 1 4) 0, station (stop_at 2 3) (5 / 32768), terminal (5 / 16384)]
        (5 / 16384) 8 512 0 \<lparr>fuel = 0, acc_cost = Fin 0, acc_plan = []\<rparr>
   = \<lparr>fuel = 0, acc_cost = Fin (35 / 262144),
      acc_plan = [stop_entry id (stop_at 1 4) 0 (5 / 262144) (Fin (5 / 65536)),
                  stop_entry id (stop_at 2 3) (5 / 32768) (5 / 262144) (Fin (15 / 262144))]\<rparr>"
  by (simp add: scan.simps scan_step_def buy_gal_def target_miles_def find_cheaper.simps Let_def)

lemma close_plan:
  "min_cost_plan id [station (stop_at 1 4) 0, station (stop_at 2 3) (5 / 32768)] (5 / 16384)
     8 512
   = Inr (Some \<lparr>stops = [stop_entry id (stop_at 1 4) 0 (5 / 262144) (Fin (5 / 65536)),
                          stop_entry id (stop_at 2 3) (5 / 32768) (5 / 262144)
                            (Fin (15 / 262144))],
                 total_cost = Fin (1 / 10000), tank_gallons_capacity = 64\<rparr>, None)"
  by (simp add: min_cost_plan_def first_gap.simps close_nodes close_scan py_round_small)

lemma close_roundings:
  "binary64 (64) = 64"
  "binary64 (1 / 1000000) = 4722366482869645 / 4722366482869645213696"
  "binary64 (5 / 32768) = 5 / 32768"
  "binary64 (2417851643951624832281997 / 4722366482869645213696) = 4503599636166589 / 8796093022208"
  "binary64 (5 / 262144) = 5 / 262144"
  "binary64 (5 / 65536) = 5 / 65536"
  "binary64 (1 / 10000) = 7378697629483821 / 73786976294838206464"
  "binary64 (16777221 / 32768) = 16777221 / 32768"
  "binary64 (15 / 262144) = 15 / 262144"
  "binary64 (35 / 262144) = 35 / 262144"
  "binary64 (7378697629483821 / 73786976294838206464) = 7378697629483821 / 73786976294838206464"
  "binary64 (7378697629483821 / 36893488147419103232) = 7378697629483821 / 36893488147419103232"
proof -
  show "binary64 (64) = 64"
    using binary64_eval [of 6 "64"] by (simp add: round_even_def power_int_minus)
  show "binary64 (1 / 1000000) = 4722366482869645 / 4722366482869645213696"
    using binary64_eval [of "- 20" "1 / 1000000"] by (simp add: round_even_def power_int_minus)
  show "binary64 (5 / 32768) = 5 / 32768"
    using binary64_eval [of "- 13" "5 / 32768"] by (simp add: round_even_def power_int_minus)
  show "binary64 (2417851643951624832281997 / 4722366482869645213696) = 4503599636166589 / 8796093022208"
    using binary64_eval [of 9 "2417851643951624832281997 / 4722366482869645213696"] by (simp add: round_even_def power_int_minus)
  show "binary64 (5 / 262144) = 5 / 262144"
    using binary64_eval [of "- 16" "5 / 262144"] by (simp add: round_even_def power_int_minus)
  show "binary64 (5 / 65536) = 5 / 65536"
    using binary64_eval [of "- 14" "5 / 65536"] by (simp add: round_even_def power_int_minus)
  show "binary64 (1 / 10000) = 7378697629483821 / 73786976294838206464"
    using binary64_eval [of "- 14" "1 / 10000"] by (simp add: round_even_def power_int_minus)
  show "binary64 (16777221 / 32768) = 16777221 / 32768"
    using binary64_eval [of 9 "16777221 / 32768"] by (simp add: round_even_def power_int_minus)
  show "binary64 (15 / 262144) = 15 / 262144"
    using binary64_eval [of "- 15" "15 / 262144"] by (simp add: round_even_def power_int_minus)
  show "binary64 (35 / 262144) = 35 / 262144"
    using binary64_eval [of "- 13" "35 / 262144"] by (simp add: round_even_def power_int_minus)
  show "binary64 (7378697629483821 / 73786976294838206464) = 7378697629483821 / 73786976294838206464"
    using binary64_eval [of "- 14" "7378697629483821 / 73786976294838206464"] by (simp add: round_even_def power_int_minus)
  show "binary64 (7378697629483821 / 36893488147419103232) = 7378697629483821 / 36893488147419103232"
    using binary64_eval [of "- 13" "7378697629483821 / 36893488147419103232"] by (simp add: round_even_def power_int_minus)
qed

lemma close_scan64:
  "scan binary64 [station (stop_at 1 4) 0, station (stop_at 2 3) (5 / 32768), terminal (5 / 16384)]
        (5 / 16384) 8 512 0 \<lparr>fuel = 0, acc_cost = Fin 0, acc_plan = []\<rparr>
   = \<lparr>fuel = 0, acc_cost = Fin (35 / 262144),
      acc_plan = [stop_entry binary64 (stop_at 1 4) 0 (5 / 262144) (Fin (5 / 65536)),
                  stop_entry binary64 (stop_at 2 3) (5 / 32768) (5 / 262144)
                    (Fin (15 / 262144))]\<rparr>"
  by (simp add: scan.simps scan_step_def buy_gal_def target_miles_def find_cheaper.simps Let_def
      close_roundings)

lemma close_plan64:
  "min_cost_plan binary64 [station (stop_at 1 4) 0, station (stop_at 2 3) (5 / 32768)] (5 / 16384)
     8 512
   = Inr (Some \<lparr>stops = [stop_entry binary64 (stop_at 1 4) 0 (5 / 262144) (Fin (5 / 65536)),
                          stop_entry binary64 (stop_at 2 3) (5 / 32768) (5 / 262144)
                            (Fin (15 / 262144))],
                 total_cost = Fin (7378697629483821 / 73786976294838206464), tank_gallons_capacity = 64\<rparr>,
          None)"
  by (simp add: min_cost_plan_def first_gap.simps close_nodes close_scan64 py_round_small
      close_roundings)

text \<open>
  Claim C10, as stated, says that \<open>total_cost\<close> is always at least the sum of the cost
  fields of the stops, but each cost field is rounded to four decimals on its own. With
  a station at 4.00 at mile 0, a station at 3.00 at mile \<open>5 * 2^-15\<close>, a route of
  \<open>5 * 2^-14\<close> miles, 8 miles per gallon and a range of 512 miles, each stop buys
  \<open>5 * 2^-18\<close> gallons; the two products are \<open>5 * 2^-16\<close> and \<open>15 * 2^-18\<close> (about
  0.000076 and 0.000057), both recorded as 0.0001: the cost fields add up to 0.0002,
  more than the total before rounding (\<open>35 * 2^-18\<close>, about 0.00013) and more than the
  returned \<open>total_cost\<close> (0.0001). This is so in exact arithmetic and in binary64, where
  0.0001 stands for the float nearest to it.
\<close>

theorem rounded_costs_counterexample:
  "(\<exists>p. min_cost_plan id [station (stop_at 1 4) 0, station (stop_at 2 3) (5 / 32768)]
          (5 / 16384) 8 512
          = Inr (Some p, None)
     \<and> map cost (stops p) = [Fin (1 / 10000), Fin (1 / 10000)]
     \<and> fsum id (map cost (stops p)) = Fin (1 / 5000)
     \<and> total_cost p = Fin (1 / 10000)
     \<and> acc_cost (scan id (build_nodes [station (stop_at 1 4) 0, station (stop_at 2 3) (5 / 32768)] (5 / 16384))
                    (5 / 16384) 8 512 0
                    \<lparr>fuel = 0, acc_cost = Fin 0, acc_plan = []\<rparr>) = Fin (35 / 262144)
     \<and> fless (total_cost p) (fsum id (map cost (stops p)))
     \<and> fless (Fin (35 / 262144)) (fsum id (map cost (stops p))))
   \<and> (\<exists>p. min_cost_plan binary64 [station (stop_at 1 4) 0, station (stop_at 2 3) (5 / 32768)]
          (5 / 16384) 8 512
          = Inr (Some p, None)
     \<and> map cost (stops p) = [Fin (binary64 (1 / 10000)), Fin (binary64 (1 / 10000))]
     \<and> fsum binary64 (map cost (stops p)) = Fin (2 * binary64 (1 / 10000))
     \<and> total_cost p = Fin (binary64 (1 / 10000))
     \<and> acc_cost (scan binary64 (build_nodes [station (stop_at 1 4) 0, station (stop_at 2 3) (5 / 32768)] (5 / 16384))
                    (5 / 16384) 8 512 0
                    \<lparr>fuel = 0, acc_cost = Fin 0, acc_plan = []\<rparr>) = Fin (35 / 262144)
     \<and> fless (total_cost p) (fsum binary64 (map cost (stops p)))
     \<and> fless (Fin (35 / 262144)) (fsum binary64 (map cost (stops p))))"
proof (rule conjI)
  show "\<exists>p. min_cost_plan id [station (stop_at 1 4) 0, station (stop_at 2 3) (5 / 32768)]
          (5 / 16384) 8 512
          = Inr (Some p, None)
     \<and> map cost (stops p) = [Fin (1 / 10000), Fin (1 / 10000)]
     \<and> fsum id (map cost (stops p)) = Fin (1 / 5000)
     \<and> total_cost p = Fin (1 / 10000)
     \<and> acc_cost (scan id (build_nodes [station (stop_at 1 4) 0, station (stop_at 2 3) (5 / 32768)] (5 / 16384))
                    (5 / 16384) 8 512 0
                    \<lparr>fuel = 0, acc_cost = Fin 0, acc_plan = []\<rparr>) = Fin (35 / 262144)
     \<and> fless (total_cost p) (fsum id (map cost (stops p)))
     \<and> fless (Fin (35 / 262144)) (fsum id (map cost (stops p)))"
    by (simp add: close_plan close_nodes close_scan stop_entry_def py_round_small fsum_def)
  show "\<exists>p. min_cost_plan binary64 [station (stop_at 1 4) 0, station (stop_at 2 3) (5 / 32768)]
          (5 / 16384) 8 512
          = Inr (Some p, None)
     \<and> map cost (stops p) = [Fin (binary64 (1 / 10000)), Fin (binary64 (1 / 10000))]
     \<and> fsum binary64 (map cost (stops p)) = Fin (2 * binary64 (1 / 10000))
     \<and> total_cost p = Fin (binary64 (1 / 10000))
     \<and> acc_cost (scan binary64 (build_nodes [station (stop_at 1 4) 0, station (stop_at 2 3) (5 / 32768)] (5 / 16384))
                    (5 / 16384) 8 512 0
                    \<lparr>fuel = 0, acc_cost = Fin 0, acc_plan = []\<rparr>) = Fin (35 / 262144)
     \<and> fless (total_cost p) (fsum binary64 (map cost (stops p)))
     \<and> fless (Fin (35 / 262144)) (fsum binary64 (map cost (stops p)))"
    by (simp add: close_plan64 close_nodes close_scan64 stop_entry_def py_round_small fsum_def
        close_roundings)
qed

subsection \<open>Route projection\<close>

lemma nearest_vertex_inv:
  "ps = drop i poly \<Longrightarrow> i \<le> length poly \<Longrightarrow> vertex_inv hav f poly i (b, d) \<Longrightarrow>
   vertex_inv hav f poly (length poly) (nearest_vertex hav f ps i (b, d))"
proof (induction ps arbitrary: i b d)
  case Nil
  then have "i = length poly" by simp
  with Nil show ?case by simp
next
  case (Cons p ps)
  from Cons.prems(1) have i: "i < length poly"
    by (metis drop_all leI list.distinct(1))
  with Cons.prems(1) have p: "p = poly ! i" and ps: "ps = drop (i + 1) poly"
    by (simp_all add: Cons_nth_drop_Suc [symmetric])
  obtain la lo where pl: "p = (la, lo)" by (cases p)
  define d' where "d' = hav (lat f) (lon f) la lo"
  from p pl have "poly ! i = (la, lo)" by simp
  then have d': "d' = dist_to hav f (poly ! i)"
    by (simp add: d'_def dist_to_def)
  from Cons.prems(3) have inv: "b < i" "d = dist_to hav f (poly ! b)"
    "\<forall>j<i. d \<le> dist_to hav f (poly ! j)" "\<forall>j<b. d < dist_to hav f (poly ! j)"
    by (auto simp: vertex_inv_def)
  show ?case
  proof (cases "d' < d")
    case True
    have "vertex_inv hav f poly (i + 1) (i, d')"
      unfolding vertex_inv_def using True inv d' by (auto simp: less_Suc_eq)
    from Cons.IH [OF ps _ this] i True show ?thesis
      by (simp add: pl d'_def)
  next
    case False
    have "vertex_inv hav f poly (i + 1) (b, d)"
      unfolding vertex_inv_def using False inv d' by (auto simp: less_Suc_eq)
    from Cons.IH [OF ps _ this] i False show ?thesis
      by (simp add: pl d'_def)
  qed
qed

lemma best_index_correct:
  assumes "poly \<noteq> []" and "dist_to hav f (hd poly) < 10 ^ 18"
  shows "is_best_index hav f poly (best_index hav f poly)
    \<and> snd (nearest_vertex hav f poly 0 (0, 10 ^ 18)) = dist_to hav f (poly ! best_index hav f poly)"
proof -
  from assms obtain p ps where poly: "poly = p # ps" by (cases poly) auto
  obtain la lo where pl: "p = (la, lo)" by (cases p)
  from assms(2) have lt: "hav (lat f) (lon f) la lo < 10 ^ 18"
    by (simp add: poly pl dist_to_def)
  then have first: "nearest_vertex hav f poly 0 (0, 10 ^ 18)
      = nearest_vertex hav f ps 1 (0, hav (lat f) (lon f) la lo)"
    by (simp add: poly pl)
  have "vertex_inv hav f poly 1 (0, hav (lat f) (lon f) la lo)"
    by (simp add: vertex_inv_def poly pl dist_to_def)
  moreover have "ps = drop 1 poly" "1 \<le> length poly" by (simp_all add: poly)
  ultimately have "vertex_inv hav f poly (length poly)
      (nearest_vertex hav f ps 1 (0, hav (lat f) (lon f) la lo))"
    by (intro nearest_vertex_inv)
  then show ?thesis
    unfolding first [symmetric] vertex_inv_def is_best_index_def best_index_def by auto
qed

lemma attach_loop_eq:
  assumes "\<forall>f\<in>set sts. best_index hav f poly < length cum"
  shows "attach_loop hav sts poly cum acc =
     Inr (acc @ map (\<lambda>f. \<lparr>e_fs = f, e_route_miles = cum ! best_index hav f poly,
                            offroute_miles = snd (nearest_vertex hav f poly 0 (0, 10 ^ 18))\<rparr>) sts)"
  using assms
proof (induction sts arbitrary: acc)
  case Nil
  show ?case by simp
next
  case (Cons f sts)
  obtain bi bd where nv: "nearest_vertex hav f poly 0 (0, 10 ^ 18) = (bi, bd)"
    by (cases "nearest_vertex hav f poly 0 (0, 10 ^ 18)")
  with Cons.prems have "bi < length cum" by (simp add: best_index_def)
  with Cons nv show ?case by (simp add: best_index_def)
qed

text \<open>
  Claim C7: for every list of stations and every non-empty route with a list of
  cumulative distances of the same length, \<^verbatim>\<open>attach_route_miles\<close> returns (without an
  error) the stations annotated with \<open>route_miles = cumulative[bestIndex]\<close> and
  \<open>offroute_miles\<close> the distance to the vertex at \<open>bestIndex\<close>, where \<open>bestIndex\<close> is the
  lowest vertex index that attains the minimum distance from the station; the result is
  the stable sort of the annotated list by \<open>route_miles\<close>: it is sorted ascending, and
  entries with equal \<open>route_miles\<close> keep the order of the input. The distances are the
  ones the program computes and compares (\<open>hav\<close>), whatever their rounding; what is
  needed of them is that the distance from a station to the first vertex is below the
  initial \<open>best_d = 1e18\<close>, as any great-circle distance in miles is.
\<close>

theorem attach_route_miles_projects:
  assumes "poly \<noteq> []" and "length cum = length poly"
    and "\<forall>f\<in>set sts. dist_to hav f (hd poly) < 10 ^ 18"
  shows "\<exists>res. attach_route_miles hav sts poly cum = Inr res
     \<and> res = sort_key e_route_miles
               (map (\<lambda>f. \<lparr>e_fs = f,
                           e_route_miles = cum ! best_index hav f poly,
                           offroute_miles = dist_to hav f (poly ! best_index hav f poly)\<rparr>) sts)
     \<and> (\<forall>f\<in>set sts. is_best_index hav f poly (best_index hav f poly))
     \<and> sorted (map e_route_miles res)
     \<and> (\<forall>m. filter (\<lambda>e. e_route_miles e = m) res
            = filter (\<lambda>e. e_route_miles e = m)
                (map (\<lambda>f. \<lparr>e_fs = f,
                            e_route_miles = cum ! best_index hav f poly,
                            offroute_miles = dist_to hav f (poly ! best_index hav f poly)\<rparr>) sts))"
proof -
  let ?ann = "\<lambda>f. \<lparr>e_fs = f, e_route_miles = cum ! best_index hav f poly,
                     offroute_miles = dist_to hav f (poly ! best_index hav f poly)\<rparr>"
  let ?raw = "\<lambda>f. \<lparr>e_fs = f, e_route_miles = cum ! best_index hav f poly,
                     offroute_miles = snd (nearest_vertex hav f poly 0 (0, 10 ^ 18))\<rparr>"
  have best: "is_best_index hav f poly (best_index hav f poly)" if "f \<in> set sts" for f
    using best_index_correct [OF assms(1)] assms(3) that by blast
  have off: "snd (nearest_vertex hav f poly 0 (0, 10 ^ 18))
      = dist_to hav f (poly ! best_index hav f poly)" if "f \<in> set sts" for f
    using best_index_correct [OF assms(1)] assms(3) that by blast
  have "\<forall>f\<in>set sts. best_index hav f poly < length cum"
    using best assms(2) by (simp add: is_best_index_def)
  from attach_loop_eq [OF this, of "[]"]
  have raw: "attach_loop hav sts poly cum [] = Inr (map ?raw sts)" by simp
  have "?raw f = ?ann f" if "f \<in> set sts" for f
    by (simp only: off [OF that])
  then have "map ?raw sts = map ?ann sts"
    by (intro map_cong refl)
  with raw have loop: "attach_loop hav sts poly cum [] = Inr (map ?ann sts)"
    by (simp only:)
  have "attach_route_miles hav sts poly cum
      = Inr (sort_key e_route_miles (map ?ann sts))"
    unfolding attach_route_miles_def loop by simp
  moreover have "sorted (map e_route_miles (sort_key e_route_miles (map ?ann sts)))"
    by (rule sorted_sort_key)
  moreover have "filter (\<lambda>e. e_route_miles e = m) (sort_key e_route_miles (map ?ann sts))
      = filter (\<lambda>e. e_route_miles e = m) (map ?ann sts)" for m
    by (rule sort_key_stable)
  ultimately show ?thesis using best by blast
qed

text \<open>
  An example along the equator, with the great-circle distance over the reals: the route
  has the vertices at longitude 0, 90 and 180; station 1 lies at longitude 180 and
  station 2 at longitude 0. Station 1 is nearest to the last vertex and station 2 to the
  first, so the result lists station 2 (route mile 0) before station 1 (route mile half
  the circumference), the reverse of the input order.
\<close>

lemma haversine_equator:
  "haversine_miles 0 0 0 0 = 0"
  "haversine_miles 0 180 0 180 = 0"
  "haversine_miles 0 0 0 90 = 39587613 / 20000 * pi"
  "haversine_miles 0 90 0 180 = 39587613 / 20000 * pi"
  "haversine_miles 0 180 0 90 = 39587613 / 20000 * pi"
  "haversine_miles 0 0 0 180 = 39587613 / 10000 * pi"
  "haversine_miles 0 180 0 0 = 39587613 / 10000 * pi"
proof -
  have q: "(sin (pi / 4))\<^sup>2 = 1 / 2"
    by (simp add: sin_45 power_divide)
  have a45: "arcsin (sqrt (1 / 2)) = pi / 4"
  proof -
    have "sqrt (1 / 2) = sin (pi / 4)"
      by (simp add: sin_45 real_sqrt_divide real_div_sqrt)
    moreover have "arcsin (sin (pi / 4)) = pi / 4"
      by (rule arcsin_sin) (use pi_gt_zero in simp_all)
    ultimately show ?thesis by simp
  qed
  have r: "radians 90 / 2 = pi / 4" "radians (- 90) / 2 = - (pi / 4)"
    "radians 180 / 2 = pi / 2" "radians (- 180) / 2 = - (pi / 2)" "radians 0 = 0"
    by (simp_all add: radians_def)
  show "haversine_miles 0 0 0 0 = 0" "haversine_miles 0 180 0 180 = 0"
    by (simp_all add: haversine_miles_def haversine_arg_def r)
  show "haversine_miles 0 0 0 90 = 39587613 / 20000 * pi"
    "haversine_miles 0 90 0 180 = 39587613 / 20000 * pi"
    "haversine_miles 0 180 0 90 = 39587613 / 20000 * pi"
    by (simp_all add: haversine_miles_def haversine_arg_def r q a45)
  show "haversine_miles 0 0 0 180 = 39587613 / 10000 * pi"
    "haversine_miles 0 180 0 0 = 39587613 / 10000 * pi"
    by (simp_all add: haversine_miles_def haversine_arg_def r)
qed

lemma equator_cumulative:
  "cumulative_miles [(0, 0), (0, 90), (0, 180)]
     = [0, 39587613 / 20000 * pi, 39587613 / 10000 * pi]"
proof -
  let ?poly = "[(0, 0), (0, 90), (0, 180)] :: point list"
  have "cumulative_loop ?poly (Suc (Suc (Suc 0))) cum = cum" for cum
    by (subst cumulative_loop.simps) simp
  then have "cumulative_loop ?poly (Suc (Suc 0)) cum
      = cum @ [last cum + 39587613 / 20000 * pi]" for cum
    by (subst cumulative_loop.simps) (simp add: haversine_equator)
  then have "cumulative_loop ?poly (Suc 0) cum
      = (cum @ [last cum + 39587613 / 20000 * pi])
        @ [last cum + 39587613 / 20000 * pi + 39587613 / 20000 * pi]" for cum
    by (subst cumulative_loop.simps) (simp add: haversine_equator)
  then show ?thesis by (simp add: cumulative_miles_def)
qed

theorem attach_route_miles_projects_witness:
  "attach_route_miles haversine_miles
     [(stop_at 1 3)\<lparr>lon := 180\<rparr>, stop_at 2 3]
     [(0, 0), (0, 90), (0, 180)] (cumulative_miles [(0, 0), (0, 90), (0, 180)])
     = Inr [\<lparr>e_fs = stop_at 2 3, e_route_miles = 0, offroute_miles = 0\<rparr>,
            \<lparr>e_fs = (stop_at 1 3)\<lparr>lon := 180\<rparr>, e_route_miles = 39587613 / 10000 * pi,
              offroute_miles = 0\<rparr>]
   \<and> best_index haversine_miles ((stop_at 1 3)\<lparr>lon := 180\<rparr>) [(0, 0), (0, 90), (0, 180)] = 2
   \<and> best_index haversine_miles (stop_at 2 3) [(0, 0), (0, 90), (0, 180)] = 0"
proof -
  let ?poly = "[(0, 0), (0, 90), (0, 180)] :: point list"
  let ?a = "(stop_at 1 3)\<lparr>lon := 180\<rparr>"
  let ?b = "stop_at 2 3"
  have poly: "?poly \<noteq> []" by simp
  have len: "length (cumulative_miles ?poly) = length ?poly"
    by (simp add: equator_cumulative)
  have "dist_to haversine_miles f q < 10 ^ 18" for f q
    unfolding dist_to_def by (rule haversine_miles_bound)
  then have bound: "\<forall>f\<in>set [?a, ?b]. dist_to haversine_miles f (hd ?poly) < 10 ^ 18"
    by blast
  have fields: "lat ?a = 0" "lon ?a = 180" "lat ?b = 0" "lon ?b = 0"
    by (simp_all add: stop_at_def)
  have p: "0 < 39587613 / 20000 * pi" "39587613 / 20000 * pi < 39587613 / 10000 * pi"
    "39587613 / 10000 * pi < 10 ^ 18"
    using pi_gt_zero haversine_miles_bound [of 0 0 0 180]
    by (simp_all add: haversine_equator)
  have ba: "best_index haversine_miles ?a ?poly = 2"
    using p by (simp add: best_index_def fields haversine_equator)
  have bb: "best_index haversine_miles ?b ?poly = 0"
    using p by (simp add: best_index_def fields haversine_equator)
  have d: "dist_to haversine_miles ?a (?poly ! 2) = 0" "dist_to haversine_miles ?b (?poly ! 0) = 0"
    by (simp_all add: dist_to_def fields haversine_equator)
  from attach_route_miles_projects [OF poly len bound] ba bb d p show ?thesis
    by (simp add: equator_cumulative)
qed

subsection \<open>Polyline decoding\<close>

text \<open>
  On the characters of the polyline alphabet the loop test \<^verbatim>\<open>b < 0x20\<close> is the test of
  bit \<open>0x20\<close> of the chunk value.
\<close>

lemma continues_iff_bit:
  assumes "63 \<le> (of_char c :: int)" and "(of_char c :: int) \<le> 126"
  shows "continues c \<longleftrightarrow> continuation_bit c"
proof -
  define b :: int where "b = of_char c - 63"
  from assms have b: "0 \<le> b" "b < 64" by (simp_all add: b_def)
  have "b AND 2 ^ 5 = 0 \<longleftrightarrow> \<not> bit b 5" by (rule and_exp_eq_0_iff_not_bit)
  also have "bit b 5 \<longleftrightarrow> odd (b div 32)" by (simp add: bit_iff_odd)
  also have "odd (b div 32) \<longleftrightarrow> 32 \<le> b"
  proof (cases "32 \<le> b")
    case True
    with b have "b div 32 = 1" by (simp add: div_pos_pos_trivial)
    with True show ?thesis by simp
  next
    case False
    with b have "b div 32 = 0" by simp
    with False show ?thesis by simp
  qed
  finally have "b AND 32 \<noteq> 0 \<longleftrightarrow> 32 \<le> b" by simp
  then show ?thesis by (auto simp: continues_def continuation_bit_def b_def)
qed

lemma read_chunks_past_end: "length s \<le> i \<Longrightarrow> read_chunks s i sh r = Inl IndexError"
  by (simp add: read_chunks.simps [of s i])

lemma read_chunks_end:
  "read_chunks s i sh r = Inr (v, j) \<Longrightarrow> \<not> continues (s ! (j - 1))"
proof (induction s i sh r rule: read_chunks.induct)
  case (1 s index shift result)
  from "1.prems" have lt: "\<not> length s \<le> index"
    by (auto simp: read_chunks.simps [of s index])
  show ?case
  proof (cases "of_char (s ! index) - 63 < (0x20 :: int)")
    case True
    with lt "1.prems" have "j = index + 1"
      by (simp add: read_chunks.simps [of s index] Let_def)
    with True show ?thesis by (simp add: continues_def)
  next
    case False
    with lt "1.prems"
    have "read_chunks s (index + 1) (shift + 5)
            (result OR push_bit shift ((of_char (s ! index) - 63) AND 0x1f)) = Inr (v, j)"
      by (simp add: read_chunks.simps [of s index] Let_def)
    from "1.IH" [OF lt refl refl refl refl False this] show ?thesis .
  qed
qed

lemma read_chunks_error: "read_chunks s i sh r = Inl e \<Longrightarrow> e = IndexError"
proof (induction s i sh r rule: read_chunks.induct)
  case (1 s index shift result)
  show ?case
  proof (cases "length s \<le> index")
    case True
    with "1.prems" show ?thesis by (simp add: read_chunks.simps [of s index])
  next
    case lt: False
    show ?thesis
    proof (cases "of_char (s ! index) - 63 < (0x20 :: int)")
      case True
      with lt "1.prems" show ?thesis by (simp add: read_chunks.simps [of s index] Let_def)
    next
      case False
      with lt "1.prems"
      have "read_chunks s (index + 1) (shift + 5)
              (result OR push_bit shift ((of_char (s ! index) - 63) AND 0x1f)) = Inl e"
        by (simp add: read_chunks.simps [of s index] Let_def)
      from "1.IH" [OF lt refl refl refl refl False this] show ?thesis .
    qed
  qed
qed

lemma decode_loop_result:
  "(decode_loop s i la lo cs = Inl e \<longrightarrow> e = IndexError)
   \<and> (decode_loop s i la lo cs = Inr pts \<longrightarrow> i < length s \<longrightarrow> \<not> continues (last s))"
proof (induction s i la lo cs rule: decode_loop.induct)
  case (1 s index lat lng coords)
  show ?case
  proof (cases "index < length s")
    case False
    then show ?thesis by (simp add: decode_loop.simps [of s index])
  next
    case lt: True
    show ?thesis
    proof (cases "read_chunks s index 0 0")
      case (Inl e1)
      with lt read_chunks_error [OF Inl] show ?thesis
        by (simp add: decode_loop.simps [of s index])
    next
      case (Inr x1)
      obtain result index1 where x1: "x1 = (result, index1)" by (cases x1)
      note c1 = Inr
      note r1 = Inr [unfolded x1]
      show ?thesis
      proof (cases "read_chunks s index1 0 0")
        case (Inl e2)
        with lt r1 read_chunks_error [OF Inl] show ?thesis
          by (simp add: decode_loop.simps [of s index] Let_def)
      next
        case (Inr x2)
        obtain result2 index2 where x2: "x2 = (result2, index2)" by (cases x2)
        note c2 = Inr
        note r2 = Inr [unfolded x2]
        let ?lat = "lat + unzigzag result"
        let ?lng = "lng + unzigzag result2"
        let ?coords = "coords @ [(of_int ?lat / 100000, of_int ?lng / 100000)]"
        have step: "decode_loop s index lat lng coords = decode_loop s index2 ?lat ?lng ?coords"
          using lt r1 r2 by (simp add: decode_loop.simps [of s index] Let_def)
        from "1.IH" [OF lt c1 x1 [symmetric] refl c2 x2 [symmetric] refl]
        have ih: "(decode_loop s index2 ?lat ?lng ?coords = Inl e \<longrightarrow> e = IndexError)
          \<and> (decode_loop s index2 ?lat ?lng ?coords = Inr pts \<longrightarrow> index2 < length s
               \<longrightarrow> \<not> continues (last s))"
          by simp
        from read_chunks_index [OF r2] read_chunks_end [OF r2]
        have i2: "0 < index2" "index2 \<le> length s" "\<not> continues (s ! (index2 - 1))" by simp_all
        have "\<not> continues (last s)" if "decode_loop s index2 ?lat ?lng ?coords = Inr pts"
        proof (cases "index2 < length s")
          case True
          with ih that show ?thesis by simp
        next
          case False
          with i2 have "index2 = length s" by simp
          moreover from lt have "s \<noteq> []" by auto
          ultimately show ?thesis using i2(3) by (simp add: last_conv_nth)
        qed
        with ih show ?thesis unfolding step by blast
      qed
    qed
  qed
qed

text \<open>
  Claim C6: \<^verbatim>\<open>decode_polyline\<close> returns the empty sequence for the empty string; for
  every string whose last character continues a group (so the final group lacks its
  terminating character) it raises \<^verbatim>\<open>IndexError\<close> and returns no points; and reads
  stay inside the string: a group that is read successfully ends at an index within the
  string, and an attempt to read at or beyond the end raises instead of reading.
\<close>

theorem truncated_polyline_raises:
  "decode_polyline [] = Inr []
   \<and> (s \<noteq> [] \<and> continues (last s) \<longrightarrow> decode_polyline s = Inl IndexError)
   \<and> (read_chunks s i sh r = Inr (v, j) \<longrightarrow> i < j \<and> j \<le> length s)
   \<and> (length s \<le> i \<longrightarrow> read_chunks s i sh r = Inl IndexError)"
proof -
  have 1: "decode_polyline [] = Inr []"
    by (simp add: decode_polyline_def decode_loop.simps)
  have 2: "decode_polyline s = Inl IndexError" if "s \<noteq> []" "continues (last s)"
  proof (cases "decode_polyline s")
    case (Inl e)
    with decode_loop_result [of s 0 0 0 "[]" e] show ?thesis
      by (simp add: decode_polyline_def)
  next
    case (Inr pts)
    with decode_loop_result [of s 0 0 0 "[]" _ pts] that show ?thesis
      by (simp add: decode_polyline_def)
  qed
  from 1 2 read_chunks_index [of s i sh r v j] read_chunks_past_end [of s i sh r]
  show ?thesis by blast
qed

theorem truncated_polyline_raises_witness:
  "continues (last ''_p~iF~ps|U_'') \<and> decode_polyline ''_p~iF~ps|U_'' = Inl IndexError"
proof -
  have "''_p~iF~ps|U_'' \<noteq> [] \<and> continues (last ''_p~iF~ps|U_'')"
    by (simp add: continues_def)
  with truncated_polyline_raises [of "''_p~iF~ps|U_''" 0 0 0 0 0] show ?thesis by blast
qed

text \<open>The reference encoding of the polyline format decodes to its three points.\<close>

lemma reference_polyline:
  "decode_polyline ''_p~iF~ps|U_ulLnnqC_mqNvxq`@''
     = Inr [(77 / 2, - (601 / 5)), (407 / 10, - (2419 / 20)), (10813 / 250, - (126453 / 1000))]"
  by (simp add: decode_polyline_def decode_loop.simps read_chunks.simps unzigzag_def Let_def)

end
